theory Spec2Isabelle
  imports
    Main
    "HOL-Library.AList"
    "HOL-Library.Monad_Syntax"
    "HOL-Library.Sublist"
    "HOL-Library.Char_ord"
    "HOL-Library.List_Lexorder"
    "HOL-Library.Product_Lexorder"
begin

section \<open>The song-catalog generator (scripts/generate-song-catalog.py)\<close>

text \<open>
  A shallow embedding of the catalog generator. A Python string is the list of the
  bytes of its UTF-8 encoding (\<open>string\<close>): on valid UTF-8, equality, concatenation, the
  order of \<open><\<close>, \<open>split('-')\<close> and the substring test \<open>in\<close> are the same on bytes and
  on code points. Python integers are \<open>int\<close>. A dictionary that is iterated is an
  association list in insertion order, with \<open>AList.update\<close> as the assignment
  \<open>d[k] = v\<close>. The input files are tables with the columns the script reads, every
  row with a string in every column.
\<close>

subsection \<open>Errors\<close>

text \<open>The exceptions that leave the script; their messages are not modelled.\<close>

datatype error = SystemExit | FileNotFoundError | ValueError

subsection \<open>The Python runtime\<close>

text \<open>
  The string methods that depend on the Unicode tables, and \<open>int\<close>, are the
  interpreter's, outside the script. They are a parameter: \<open>str_lower py s\<close> is
  \<open>s.lower()\<close>, \<open>str_strip py s\<close> is \<open>s.strip()\<close>, \<open>str_isdigit py s\<close> is
  \<open>s.isdigit()\<close> and \<open>int_of_str py s\<close> is \<open>int(s)\<close>, with \<open>None\<close> for its
  \<open>ValueError\<close>. So is the order in which a set of strings is iterated, which depends
  on the hash seed of the process: \<open>set_iter py xs\<close> is the iteration of the set built
  from the elements \<open>xs\<close>. \<open>set_iter_ok\<close> is what every order has: each element once.
\<close>

record python =
  str_lower :: "string \<Rightarrow> string"
  str_strip :: "string \<Rightarrow> string"
  str_isdigit :: "string \<Rightarrow> bool"
  int_of_str :: "string \<Rightarrow> int option"
  set_iter :: "string list \<Rightarrow> string list"

definition set_iter_ok :: "python \<Rightarrow> bool" where
  "set_iter_ok py = (\<forall>xs. distinct (set_iter py xs) \<and> set (set_iter py xs) = set xs)"

subsection \<open>String primitives\<close>

text \<open>\<open>s.split(sep)\<close> for a one-character separator: never the empty list.\<close>

fun split_on :: "char \<Rightarrow> string \<Rightarrow> string list" where
  "split_on sep [] = [[]]"
| "split_on sep (c # cs) =
     (if c = sep then [] # split_on sep cs
      else (case split_on sep cs of
              [] \<Rightarrow> [[c]]
            | seg # segs \<Rightarrow> (c # seg) # segs))"

text \<open>The ASCII digits, and the value of a run of them.\<close>

definition is_digit :: "char \<Rightarrow> bool" where
  "is_digit c = (CHR ''0'' \<le> c \<and> c \<le> CHR ''9'')"

definition digit_val :: "char \<Rightarrow> int" where
  "digit_val c = int (of_char c) - 48"

definition dec_val :: "string \<Rightarrow> int" where
  "dec_val s = foldl (\<lambda>n c. 10 * n + digit_val c) 0 s"

subsection \<open>A runtime to run the script on\<close>

text \<open>
  A stand-in for the interpreter, used only to run the script on examples; the
  properties below are about any runtime. It does what Python 3.11 does on text made
  of ASCII characters and of the superscript digits U+00B2, U+00B3 and U+00B9 (the
  bytes \<open>C2 B2\<close>, \<open>C2 B3\<close>, \<open>C2 B9\<close>), which \<open>isdigit\<close> accepts and \<open>int\<close> refuses.
  \<open>strip\<close> removes the white space of \<open>str.isspace\<close>; \<open>int\<close> removes that of C's
  \<open>isspace\<close>, takes an optional sign and digits with single underscores between them,
  and refuses more than 4300 digits.
\<close>

definition is_space :: "char \<Rightarrow> bool" where
  "is_space c = ((of_char c :: nat) \<in> {9, 10, 11, 12, 13, 28, 29, 30, 31, 32})"

definition is_c_space :: "char \<Rightarrow> bool" where
  "is_c_space c = ((of_char c :: nat) \<in> {9, 10, 11, 12, 13, 32})"

definition example_strip :: "string \<Rightarrow> string" where
  "example_strip s = rev (dropWhile is_space (rev (dropWhile is_space s)))"

definition lower_char :: "char \<Rightarrow> char" where
  "lower_char c =
     (if CHR ''A'' \<le> c \<and> c \<le> CHR ''Z'' then char_of (of_char c + (32 :: nat)) else c)"

definition example_lower :: "string \<Rightarrow> string" where
  "example_lower s = map lower_char s"

fun digit_units :: "string \<Rightarrow> bool" where
  "digit_units [] = True"
| "digit_units [c] = is_digit c"
| "digit_units (c # d # cs) =
     (if is_digit c then digit_units (d # cs)
      else c = CHR 0xC2 \<and> (d = CHR 0xB2 \<or> d = CHR 0xB3 \<or> d = CHR 0xB9) \<and> digit_units cs)"

definition example_isdigit :: "string \<Rightarrow> bool" where
  "example_isdigit s = (s \<noteq> [] \<and> digit_units s)"

fun digit_groups_ok :: "string \<Rightarrow> bool" where
  "digit_groups_ok [] = False"
| "digit_groups_ok [c] = is_digit c"
| "digit_groups_ok (c # d # cs) =
     (is_digit c \<and>
      (if d = CHR ''_'' then digit_groups_ok cs else digit_groups_ok (d # cs)))"

definition example_int :: "string \<Rightarrow> int option" where
  "example_int s =
     (let t = rev (dropWhile is_c_space (rev (dropWhile is_c_space s)));
          (neg, body) = (case t of
                           [] \<Rightarrow> (False, [])
                         | c # cs \<Rightarrow> if c = CHR ''-'' then (True, cs)
                                    else if c = CHR ''+'' then (False, cs)
                                    else (False, t))
      in if digit_groups_ok body \<and> length (filter is_digit body) \<le> 4300
         then (let v = dec_val (filter is_digit body) in Some (if neg then - v else v))
         else None)"

definition example_python :: python where
  "example_python =
     \<lparr>str_lower = example_lower, str_strip = example_strip, str_isdigit = example_isdigit,
      int_of_str = example_int, set_iter = (\<lambda>xs. rev (remdups xs))\<rparr>"

subsection \<open>Configuration\<close>

definition DECADE_TARGETS :: "(int \<times> int) list" where
  "DECADE_TARGETS =
     [(1960, 150), (1970, 350), (1980, 400), (1990, 500), (2000, 600), (2010, 800),
      (2020, 100)]"

definition FILM_KEYWORDS :: "string list" where
  "FILM_KEYWORDS =
     [''motion picture'',
      ''soundtrack'',
      ''ost'',
      ''original score'',
      ''original film'',
      ''from the film'',
      ''from '' @ [CHR 0xE2, CHR 0x80, CHR 0x9C],
      ''from '' @ [CHR 0x22],
      ''anime'',
      ''anim'' @ [CHR 0xC3, CHR 0xA9],
      ''opening theme'',
      ''ending theme'',
      ''netflix film'',
      ''pixar'',
      ''marvel'',
      ''ost'',
      ''score version'']"

definition FRENCH_ARTIST_PATTERNS :: "string list" where
  "FRENCH_ARTIST_PATTERNS =
     [''stromae'', ''angele'', ''aya nakamura'', ''indila'', ''christine and the queens'',
      ''orelsan'', ''soprano'', ''jul'', ''nekfeu'', ''pnl'', ''maitre gims'',
      ''ma'' @ [CHR 0xC3, CHR 0xAE] @ ''tre gims'', ''gims'', ''black m'',
      ''clara luciani'', ''louane'', ''vianney'', ''camelia jordana'',
      ''cam'' @ [CHR 0xC3, CHR 0xA9] @ ''lia jordana'', ''mc solaar'', ''iam'', ''ntm'',
      ''yelle'', ''booba'', ''keny arkana'', ''lomepal'', ''hoshi'', ''bigflo & oli'',
      ''alonzo'', ''kaaris'', ''sch'', ''sexion d'' @ [CHR 0x27] @ ''assaut'',
      ''sexion d'' @ [CHR 0x27] @ ''assaut'', ''dadju'', ''phoenix'', ''justice'',
      ''caravan palace'', ''daft punk'', ''air'', ''david guetta'', ''madeon'',
      ''petit biscuit'', ''kavinsky'', ''breakbot'', ''yuksek'', ''rone'', ''cassius'',
      ''charlotte gainsbourg'', ''vanessa paradis'', ''indochine'', ''noir desir'',
      ''tryo'', ''manau'', ''louise attaque'', ''jacques brel'', ''serge gainsbourg'',
      ''francis cabrel'', ''jean-jacques goldman'', ''mylene farmer'', ''zaz'', ''zazie'',
      ''patrick bruel'', ''renaud'', ''benabar'',
      ''b'' @ [CHR 0xC3, CHR 0xA9] @ ''nabar'', ''raphael'',
      ''raph'' @ [CHR 0xC3, CHR 0xA4] @ ''el'', ''calogero'', ''kyo'',
      ''diam'' @ [CHR 0x27] @ ''s'', ''vitaa'', ''jenifer'', ''amel bent'',
      ''chimene badi'', ''chim'' @ [CHR 0xC3, CHR 0xA8] @ ''ne badi'', ''tal'',
      ''bb brunes'', ''louise attaque'',
      ''supr'' @ [CHR 0xC3, CHR 0xAA] @ ''me ntm'',
      ''supr'' @ [CHR 0xC3, CHR 0xAA] @ ''me n.t.m'']"

subsection \<open>Rows\<close>

text \<open>A row of the raw table, with the columns the script reads.\<close>

record raw_row =
  track_id :: string
  track_name :: string
  track_artist :: string
  track_popularity :: string
  track_album_name :: string
  track_album_release_date :: string
  playlist_name :: string
  playlist_id :: string
  playlist_genre :: string
  playlist_subgenre :: string
  danceability :: string
  energy :: string
  speechiness :: string
  acousticness :: string
  instrumentalness :: string
  liveness :: string
  valence :: string
  tempo :: string
  duration_ms :: string

text \<open>A loaded row: the raw row with the keys \<open>release_year\<close> and \<open>decade\<close> that
  \<open>load_spotify_records\<close> adds to it.\<close>

record spotify_record =
  row :: raw_row
  release_year :: int
  decade :: int

subsection \<open>Row predicates\<close>

text \<open>\<open>parse_year\<close>: \<open>Inr None\<close> is the result \<open>None\<close>, \<open>Inl ValueError\<close> is the error
  that \<open>int\<close> raises on a segment that \<open>isdigit\<close> accepts and \<open>int\<close> does not.\<close>

definition parse_year :: "python \<Rightarrow> string \<Rightarrow> error + int option" where
  "parse_year py date_str =
     (if date_str = [] then Inr None
      else (let year_part = (case split_on (CHR ''-'') (str_strip py date_str) of
                               [] \<Rightarrow> []
                             | seg # _ \<Rightarrow> seg)
            in if str_isdigit py year_part
               then (case int_of_str py year_part of
                       None \<Rightarrow> Inl ValueError
                     | Some year \<Rightarrow> Inr (Some year))
               else Inr None))"

definition is_soundtrack :: "python \<Rightarrow> raw_row \<Rightarrow> bool" where
  "is_soundtrack py r =
     (let combined = str_lower py (track_name r @ '' '' @ track_album_name r)
      in list_ex (\<lambda>keyword. sublist keyword combined) FILM_KEYWORDS)"

definition detect_language :: "python \<Rightarrow> raw_row \<Rightarrow> string" where
  "detect_language py r =
     (let artist = str_lower py (track_artist r)
      in if list_ex (\<lambda>pattern. sublist pattern artist) FRENCH_ARTIST_PATTERNS then ''fr''
         else if playlist_genre r = ''latin'' then ''es''
         else ''en'')"

definition origin_markets :: "string \<Rightarrow> string list" where
  "origin_markets language =
     (if language = ''fr'' then [''FR'', ''BE'', ''CA'']
      else if language = ''es'' then [''ES'', ''MX'', ''AR'']
      else [''GLOBAL''])"

subsection \<open>Loading\<close>

text \<open>One iteration of the loop of \<open>load_spotify_records\<close>, on the state
  \<open>(records, seen_ids)\<close>; an error of \<open>parse_year\<close> leaves the loop and the function.\<close>

definition load_row :: "python \<Rightarrow> spotify_record list \<times> string set \<Rightarrow> raw_row \<Rightarrow>
    error + spotify_record list \<times> string set" where
  "load_row py st r =
     (let (records, seen_ids) = st in
      if track_id r \<in> seen_ids then Inr st
      else (case parse_year py (track_album_release_date r) of
              Inl e \<Rightarrow> Inl e
            | Inr None \<Rightarrow> Inr st
            | Inr (Some year) \<Rightarrow>
                if year < 1960 then Inr st
                else (let dec = (year div 10) * 10 in
                      if dec < 1960 \<or> dec \<notin> set (map fst DECADE_TARGETS) then Inr st
                      else if is_soundtrack py r then Inr st
                      else Inr (records @ [\<lparr>row = r, release_year = year, decade = dec\<rparr>],
                                insert (track_id r) seen_ids))))"

fun load_loop :: "python \<Rightarrow> spotify_record list \<times> string set \<Rightarrow> raw_row list \<Rightarrow>
    error + spotify_record list \<times> string set" where
  "load_loop py st [] = Inr st"
| "load_loop py st (r # rows) =
     (case load_row py st r of
        Inl e \<Rightarrow> Inl e
      | Inr st' \<Rightarrow> load_loop py st' rows)"

definition load_spotify_records :: "python \<Rightarrow> raw_row list \<Rightarrow> error + spotify_record list" where
  "load_spotify_records py rows =
     (case load_loop py ([], {}) rows of
        Inl e \<Rightarrow> Inl e
      | Inr st \<Rightarrow> Inr (fst st))"

subsection \<open>The random source\<close>

text \<open>
  \<open>rng = random.Random(42)\<close> is an object of the standard library, outside the script.
  Its algorithms are a parameter: \<open>sample_indices g n k\<close> are the positions that
  \<open>rng.sample\<close> picks in a population of \<open>n\<close> elements, \<open>shuffle_indices g n\<close> is
  the rearrangement that \<open>rng.shuffle\<close> applies to a list of \<open>n\<close> elements; both
  return the generator's next state. \<open>generator_ok\<close> is the library's contract:
  a sample has \<open>k\<close> distinct positions inside the population, a shuffle is a
  permutation.
\<close>

record 'g generator =
  sample_indices :: "'g \<Rightarrow> nat \<Rightarrow> nat \<Rightarrow> nat list \<times> 'g"
  shuffle_indices :: "'g \<Rightarrow> nat \<Rightarrow> nat list \<times> 'g"

definition generator_ok :: "'g generator \<Rightarrow> bool" where
  "generator_ok gen =
     ((\<forall>g n k. k \<le> n \<longrightarrow>
         length (fst (sample_indices gen g n k)) = k \<and>
         distinct (fst (sample_indices gen g n k)) \<and>
         set (fst (sample_indices gen g n k)) \<subseteq> {..<n}) \<and>
      (\<forall>g n. length (fst (shuffle_indices gen g n)) = n \<and>
         set (fst (shuffle_indices gen g n)) = {..<n}))"

text \<open>\<open>rng.sample(xs, k)\<close>; every call of the script has \<open>0 \<le> k \<le> len(xs)\<close>, so the
  \<open>ValueError\<close> of a larger sample is never raised.\<close>

definition rng_sample :: "'g generator \<Rightarrow> 'g \<Rightarrow> 'a list \<Rightarrow> nat \<Rightarrow> 'a list \<times> 'g" where
  "rng_sample gen g xs k =
     (let (idx, g') = sample_indices gen g (length xs) k in (map (\<lambda>i. xs ! i) idx, g'))"

definition rng_shuffle :: "'g generator \<Rightarrow> 'g \<Rightarrow> 'a list \<Rightarrow> 'a list \<times> 'g" where
  "rng_shuffle gen g xs =
     (let (idx, g') = shuffle_indices gen g (length xs) in (map (\<lambda>i. xs ! i) idx, g'))"

text \<open>A small generator to run the script on: the state counts the calls, a sample
  and a shuffle start at the position the state gives.\<close>

definition counter_generator :: "nat generator" where
  "counter_generator =
     \<lparr>sample_indices = (\<lambda>g n k. (take k (rotate g [0..<n]), Suc g)),
      shuffle_indices = (\<lambda>g n. (rotate g [0..<n], Suc g))\<rparr>"

subsection \<open>Stratified sampling\<close>

type_synonym groups = "(string \<times> spotify_record list) list"
type_synonym allocations = "(string \<times> int) list"

definition genre_of :: "spotify_record \<Rightarrow> string" where
  "genre_of r = playlist_genre (row r)"

text \<open>\<open>groups[row['playlist_genre']].append(row)\<close> on a \<open>defaultdict(list)\<close>.\<close>

definition group_append :: "groups \<Rightarrow> spotify_record \<Rightarrow> groups" where
  "group_append groups r =
     AList.update (genre_of r)
       ((case map_of groups (genre_of r) of None \<Rightarrow> [] | Some items \<Rightarrow> items) @ [r]) groups"

definition group_by_genre :: "spotify_record list \<Rightarrow> groups" where
  "group_by_genre bucket = foldl group_append [] bucket"

text \<open>\<open>allocations[genre]\<close>. The keys of \<open>allocations\<close> are those of \<open>groups\<close>
  (lemma \<open>allocation_plan_facts\<close>), so the \<open>KeyError\<close> of a missing key is never raised
  and the default is that of \<open>allocations.get(genre, 0)\<close>.\<close>

definition alloc_get :: "allocations \<Rightarrow> string \<Rightarrow> int" where
  "alloc_get allocations genre = (case map_of allocations genre of None \<Rightarrow> 0 | Some c \<Rightarrow> c)"

text \<open>\<open>int(round(p / q))\<close> for \<open>q > 0\<close>: the quotient rounded to the nearest integer,
  a tie to the even one. The script divides in floating point, which agrees with the
  exact quotient as long as \<open>p\<close> and \<open>q\<close> are far below \<open>2^53\<close>.\<close>

definition py_round_div :: "int \<Rightarrow> int \<Rightarrow> int" where
  "py_round_div p q =
     (let f = p div q; r = 2 * (p mod q)
      in if r < q then f else if q < r then f + 1 else if even f then f else f + 1)"

definition initial_allocation :: "int \<Rightarrow> int \<Rightarrow> allocations \<Rightarrow>
    string \<times> spotify_record list \<Rightarrow> allocations" where
  "initial_allocation target total_items allocations kv =
     (let (genre, items) = kv;
          a1 = AList.update genre
                 (max 1 (py_round_div (target * int (length items)) total_items)) allocations
      in AList.update genre (min (alloc_get a1 genre) (int (length items))) a1)"

definition initial_allocations :: "int \<Rightarrow> groups \<Rightarrow> allocations" where
  "initial_allocations target groups =
     (let total_items = sum_list (map (\<lambda>(genre, items). int (length items)) groups)
      in foldl (initial_allocation target total_items) [] groups)"

text \<open>\<open>sorted(xs, key=key, reverse=True)\<close>: descending, and elements with equal keys
  keep their order in \<open>xs\<close>.\<close>

definition sorted_reverse :: "('a \<Rightarrow> 'k::linorder) \<Rightarrow> 'a list \<Rightarrow> 'a list" where
  "sorted_reverse key xs = rev (sort_key key (rev xs))"

text \<open>The loop that hands out a shortfall, on the state \<open>(allocations, diff)\<close>.\<close>

fun fill_shortfall :: "allocations \<Rightarrow> int \<Rightarrow> groups \<Rightarrow> allocations" where
  "fill_shortfall allocations diff [] = allocations"
| "fill_shortfall allocations diff ((genre, items) # ordered) =
     (if diff \<le> 0 then allocations
      else (let available = int (length items) - alloc_get allocations genre in
            if available \<le> 0 then fill_shortfall allocations diff ordered
            else (let add = min diff available
                  in fill_shortfall
                       (AList.update genre (alloc_get allocations genre + add) allocations)
                       (diff - add) ordered)))"

text \<open>The inner \<open>while\<close> loop that takes an excess from one genre, on the state
  \<open>(allocations[genre], diff)\<close>.\<close>

function trim_genre :: "int \<Rightarrow> int \<Rightarrow> int \<times> int" where
  "trim_genre a diff =
     (if 1 < a \<and> 0 < diff
      then (if diff - 1 = 0 then (a - 1, diff - 1) else trim_genre (a - 1) (diff - 1))
      else (a, diff))"
  by pat_completeness auto
termination
  by (relation "measure (\<lambda>(a, diff). nat diff)") auto

declare trim_genre.simps [simp del]

fun trim_excess :: "allocations \<Rightarrow> int \<Rightarrow> allocations \<Rightarrow> allocations" where
  "trim_excess allocations diff [] = allocations"
| "trim_excess allocations diff ((genre, _) # ordered) =
     (if diff = 0 then allocations
      else (let (a, diff') = trim_genre (alloc_get allocations genre) diff
            in trim_excess (AList.update genre a allocations) diff' ordered))"

text \<open>The sort key \<open>lambda kv: (len(kv[1]) - allocations[kv[0]], len(kv[1]))\<close>.\<close>

definition shortfall_key :: "allocations \<Rightarrow> string \<times> spotify_record list \<Rightarrow> int \<times> int" where
  "shortfall_key allocations kv =
     (int (length (snd kv)) - alloc_get allocations (fst kv), int (length (snd kv)))"

definition reconcile :: "int \<Rightarrow> groups \<Rightarrow> allocations \<Rightarrow> allocations" where
  "reconcile target groups allocations =
     (let current = sum_list (map snd allocations) in
      if current < target then
        fill_shortfall allocations (target - current)
          (sorted_reverse (shortfall_key allocations) groups)
      else if target < current then
        trim_excess allocations (current - target) (sorted_reverse snd allocations)
      else allocations)"

text \<open>The allocation plan of a bucket: what \<open>allocations\<close> holds when
  \<open>stratified_sample\<close> starts drawing.\<close>

definition allocation_plan :: "spotify_record list \<Rightarrow> int \<Rightarrow> allocations" where
  "allocation_plan bucket target =
     (let groups = group_by_genre bucket
      in reconcile target groups (initial_allocations target groups))"

text \<open>The drawing loop, on the state \<open>(sampled, rng)\<close>.\<close>

fun draw :: "'g generator \<Rightarrow> allocations \<Rightarrow> spotify_record list \<times> 'g \<Rightarrow> groups \<Rightarrow>
    spotify_record list \<times> 'g" where
  "draw gen allocations st [] = st"
| "draw gen allocations (sampled, g) ((genre, items) # groups) =
     (let count = alloc_get allocations genre in
      if count \<le> 0 then draw gen allocations (sampled, g) groups
      else if int (length items) \<le> count
      then draw gen allocations (sampled @ items, g) groups
      else (let (s, g') = rng_sample gen g items (nat count)
            in draw gen allocations (sampled @ s, g') groups))"

definition stratified_sample :: "'g generator \<Rightarrow> 'g \<Rightarrow> spotify_record list \<Rightarrow> int \<Rightarrow>
    spotify_record list \<times> 'g" where
  "stratified_sample gen g bucket target =
     (if int (length bucket) \<le> target then (bucket, g)
      else draw gen (allocation_plan bucket target) ([], g) (group_by_genre bucket))"

subsection \<open>Selection by decade\<close>

text \<open>\<open>xs[:n]\<close>: a negative \<open>n\<close> counts from the end.\<close>

definition py_prefix :: "'a list \<Rightarrow> int \<Rightarrow> 'a list" where
  "py_prefix xs n = (if 0 \<le> n then take (nat n) xs else take (length xs - nat (- n)) xs)"

definition id_of :: "spotify_record \<Rightarrow> string" where
  "id_of r = track_id (row r)"

text \<open>The bucket of a decade and what one iteration of the loop of
  \<open>select_spotify_subset\<close> picks from it, before the truncation to \<open>target\<close>.\<close>

definition decade_bucket :: "spotify_record list \<Rightarrow> string set \<Rightarrow> int \<Rightarrow>
    spotify_record list" where
  "decade_bucket records used_ids dec =
     filter (\<lambda>r. decade r = dec \<and> id_of r \<notin> used_ids) records"

definition decade_picks :: "'g generator \<Rightarrow> 'g \<Rightarrow> spotify_record list \<Rightarrow> int \<Rightarrow>
    spotify_record list \<times> 'g" where
  "decade_picks gen g bucket target =
     (let (picks, g1) = stratified_sample gen g bucket target in
      if int (length picks) < target then
        (let remaining = filter (\<lambda>r. id_of r \<notin> set (map id_of picks)) bucket;
             needed = target - int (length picks)
         in if remaining \<noteq> [] \<and> 0 < needed
            then (let (extra, g2) =
                        rng_sample gen g1 remaining (nat (min needed (int (length remaining))))
                  in (picks @ extra, g2))
            else (picks, g1))
      else (picks, g1))"

text \<open>One iteration, on the state \<open>(selected, used_ids, rng)\<close>.\<close>

definition select_decade :: "'g generator \<Rightarrow> spotify_record list \<Rightarrow>
    spotify_record list \<times> string set \<times> 'g \<Rightarrow> int \<times> int \<Rightarrow>
    spotify_record list \<times> string set \<times> 'g" where
  "select_decade gen records st dt =
     (let (selected, used_ids, g) = st; (dec, target) = dt;
          bucket = decade_bucket records used_ids dec
      in if bucket = [] then st
         else (let (picks, g') = decade_picks gen g bucket target
               in (selected @ py_prefix picks target, used_ids \<union> set (map id_of picks), g')))"

definition select_loop :: "'g generator \<Rightarrow> spotify_record list \<Rightarrow> (int \<times> int) list \<Rightarrow>
    spotify_record list \<times> string set \<times> 'g \<Rightarrow> spotify_record list \<times> string set \<times> 'g" where
  "select_loop gen records targets st = foldl (select_decade gen records) st targets"

definition select_spotify_subset :: "'g generator \<Rightarrow> 'g \<Rightarrow> spotify_record list \<Rightarrow>
    spotify_record list \<times> 'g" where
  "select_spotify_subset gen g records =
     (let (selected, used_ids, g') = select_loop gen records DECADE_TARGETS ([], {}, g)
      in (selected, g'))"

subsection \<open>Catalog entries\<close>

text \<open>
  Python's \<open>float\<close> is a parameter: \<open>float_of s\<close> is \<open>float(s)\<close>, with \<open>None\<close> for
  its \<open>ValueError\<close>, \<open>ms_to_seconds x\<close> is \<open>round(x / 1000, 2)\<close> and \<open>round3 x\<close> is
  \<open>round(x, 3)\<close>.
\<close>

record 'f float_ops =
  float_of :: "string \<Rightarrow> 'f option"
  ms_to_seconds :: "'f \<Rightarrow> 'f"
  round3 :: "'f \<Rightarrow> 'f"

record 'f entry =
  entry_id :: string
  title :: string
  artist :: string
  album :: string
  releaseYear :: int
  releaseDate :: string
  primaryGenre :: string
  subGenre :: string
  language :: string
  originMarkets :: "string list"
  durationSeconds :: "'f option"
  bpm :: "'f option"
  audioFeatures :: "(string \<times> 'f) list option"
  popularity :: "int option"
  niche :: bool
  source :: string
  availableProviders :: "string list"
  searchHints :: "(string \<times> string) list"
  clip :: "(string \<times> int) list"
  languageConfidence :: string
  tags :: "string list"
  datasetMeta :: "(string \<times> string) list option"

text \<open>\<open>int(row['track_popularity']) if row['track_popularity'] else None\<close>; the outer
  \<open>None\<close> is the \<open>ValueError\<close> of \<open>int\<close>.\<close>

definition popularity_of :: "python \<Rightarrow> string \<Rightarrow> int option option" where
  "popularity_of py s = (if s \<noteq> [] then map_option Some (int_of_str py s) else Some None)"

definition spotify_row_to_entry :: "python \<Rightarrow> 'f float_ops \<Rightarrow> spotify_record \<Rightarrow>
    error + 'f entry" where
  "spotify_row_to_entry py fl rec =
     (let r = row rec; lang = detect_language py r in
      case do {
        duration_seconds \<leftarrow> map_option (ms_to_seconds fl) (float_of fl (duration_ms r));
        bpm_value \<leftarrow> map_option (round3 fl) (float_of fl (tempo r));
        pop \<leftarrow> popularity_of py (track_popularity r);
        dance \<leftarrow> float_of fl (danceability r);
        ener \<leftarrow> float_of fl (energy r);
        speech \<leftarrow> float_of fl (speechiness r);
        acoustic \<leftarrow> float_of fl (acousticness r);
        instrumental \<leftarrow> float_of fl (instrumentalness r);
        live \<leftarrow> float_of fl (liveness r);
        val \<leftarrow> float_of fl (valence r);
        Some \<lparr>entry_id = ''spotify:'' @ track_id r,
              title = track_name r,
              artist = track_artist r,
              album = track_album_name r,
              releaseYear = release_year rec,
              releaseDate = track_album_release_date r,
              primaryGenre = playlist_genre r,
              subGenre = playlist_subgenre r,
              language = lang,
              originMarkets = origin_markets lang,
              durationSeconds = Some duration_seconds,
              bpm = Some bpm_value,
              audioFeatures = Some
                [(''danceability'', dance), (''energy'', ener), (''speechiness'', speech),
                 (''acousticness'', acoustic), (''instrumentalness'', instrumental),
                 (''liveness'', live), (''valence'', val), (''tempo'', bpm_value)],
              popularity = pop,
              niche = (case pop of None \<Rightarrow> False | Some p \<Rightarrow> p < 45),
              source = ''spotify-tidytuesday-2020-01-21'',
              availableProviders = [''spotify'', ''youtube'', ''deezer''],
              searchHints =
                [(''youtube'', track_artist r @ '' '' @ track_name r),
                 (''spotify'', ''spotify:track:'' @ track_id r),
                 (''deezer'', track_artist r @ '' '' @ track_name r)],
              clip = [(''startSeconds'', 30), (''durationSeconds'', 45)],
              languageConfidence = ''heuristic'',
              tags = sort (set_iter py [playlist_genre r, playlist_subgenre r, lang]),
              datasetMeta = Some
                [(''playlistId'', playlist_id r), (''playlistName'', playlist_name r)]\<rparr>
      } of
        None \<Rightarrow> Inl ValueError
      | Some e \<Rightarrow> Inr e)"

text \<open>A list comprehension or loop whose body may raise: the first error ends it.\<close>

fun map_result :: "('a \<Rightarrow> error + 'b) \<Rightarrow> 'a list \<Rightarrow> error + 'b list" where
  "map_result f [] = Inr []"
| "map_result f (x # xs) =
     (case f x of
        Inl e \<Rightarrow> Inl e
      | Inr y \<Rightarrow> (case map_result f xs of Inl e \<Rightarrow> Inl e | Inr ys \<Rightarrow> Inr (y # ys)))"

subsection \<open>The curated list\<close>

record manual_row =
  m_year :: string
  m_artist :: string
  m_title :: string
  m_album :: string
  m_primary_genre :: string
  m_subgenre :: string
  m_language :: string
  m_youtube_hint :: string

text \<open>\<open>str(n)\<close> for an integer.\<close>

fun str_nat :: "nat \<Rightarrow> string" where
  "str_nat n =
     (if n < 10 then [char_of (48 + n)] else str_nat (n div 10) @ [char_of (48 + n mod 10)])"

declare str_nat.simps [simp del]

definition str_of_int :: "int \<Rightarrow> string" where
  "str_of_int i = (if i < 0 then CHR ''-'' # str_nat (nat (- i)) else str_nat (nat i))"

text \<open>\<open>re.sub(r'[^a-z0-9]+', '-', s)\<close> and \<open>s.strip('-')\<close>.\<close>

definition is_slug_char :: "char \<Rightarrow> bool" where
  "is_slug_char c = ((CHR ''a'' \<le> c \<and> c \<le> CHR ''z'') \<or> is_digit c)"

function dash_runs :: "string \<Rightarrow> string" where
  "dash_runs [] = []"
| "dash_runs (c # cs) =
     (if is_slug_char c then c # dash_runs cs
      else CHR ''-'' # dash_runs (dropWhile (\<lambda>c. \<not> is_slug_char c) cs))"
  by pat_completeness auto
termination
  by (relation "measure length") (auto simp: length_dropWhile_le less_Suc_eq_le)

definition strip_dashes :: "string \<Rightarrow> string" where
  "strip_dashes s =
     rev (dropWhile (\<lambda>c. c = CHR ''-'') (rev (dropWhile (\<lambda>c. c = CHR ''-'') s)))"

definition manual_entry :: "python \<Rightarrow> manual_row \<Rightarrow> error + 'f entry" where
  "manual_entry py r =
     (case int_of_str py (m_year r) of
        None \<Rightarrow> Inl ValueError
      | Some year \<Rightarrow>
          (let slug = strip_dashes (dash_runs
                        (str_lower py
                           (m_artist r @ '' '' @ m_title r @ '' '' @ str_of_int year)))
           in Inr \<lparr>entry_id = ''manual:'' @ slug,
                   title = m_title r,
                   artist = m_artist r,
                   album = m_album r,
                   releaseYear = year,
                   releaseDate = str_of_int year @ ''-01-01'',
                   primaryGenre = m_primary_genre r,
                   subGenre = m_subgenre r,
                   language = m_language r,
                   originMarkets = [''FR'', ''BE'', ''CA''],
                   durationSeconds = None,
                   bpm = None,
                   audioFeatures = None,
                   popularity = None,
                   niche = False,
                   source = ''manual-french-classics'',
                   availableProviders = [''youtube'', ''deezer'', ''manual''],
                   searchHints = [(''youtube'', m_youtube_hint r)],
                   clip = [(''startSeconds'', 30), (''durationSeconds'', 45)],
                   languageConfidence = ''curated'',
                   tags = sort (set_iter py
                             [m_primary_genre r, m_subgenre r, ''francophone'']),
                   datasetMeta = None\<rparr>))"

text \<open>The paths relative to \<open>ROOT\<close>, as \<open>relative_to(ROOT)\<close> prints them on a POSIX
  system. A file is its rows; \<open>None\<close> is a file that does not exist.\<close>

definition RAW_DATA :: string where
  "RAW_DATA = ''apps/server/data/raw/spotify_songs_2020-01-21.csv''"

definition MANUAL_FR_FILE :: string where
  "MANUAL_FR_FILE = ''apps/server/data/manual-french-songs.tsv''"

definition load_manual_french_songs :: "python \<Rightarrow> manual_row list option \<Rightarrow>
    error + 'f entry list" where
  "load_manual_french_songs py file =
     (case file of
        None \<Rightarrow> Inl FileNotFoundError
      | Some rows \<Rightarrow> map_result (manual_entry py) rows)"

subsection \<open>The pipeline\<close>

text \<open>\<open>(title.lower().strip(), artist.lower().strip())\<close>.\<close>

definition norm_key :: "python \<Rightarrow> string \<Rightarrow> string \<Rightarrow> string \<times> string" where
  "norm_key py t a = (str_strip py (str_lower py t), str_strip py (str_lower py a))"

definition entry_key :: "python \<Rightarrow> 'f entry \<Rightarrow> string \<times> string" where
  "entry_key py e = norm_key py (title e) (artist e)"

definition row_key :: "python \<Rightarrow> spotify_record \<Rightarrow> string \<times> string" where
  "row_key py r = norm_key py (track_name (row r)) (track_artist (row r))"

text \<open>One iteration of the loop over the curated entries, on the state
  \<open>(manual_entries, skipped_manual, key_lookup)\<close>.\<close>

definition merge_manual :: "python \<Rightarrow> 'f entry list \<times> nat \<times> (string \<times> string) set \<Rightarrow>
    'f entry \<Rightarrow> 'f entry list \<times> nat \<times> (string \<times> string) set" where
  "merge_manual py st e =
     (let (manual_entries, skipped_manual, key_lookup) = st; key = entry_key py e
      in if key \<in> key_lookup then (manual_entries, skipped_manual + 1, key_lookup)
         else (manual_entries @ [e], skipped_manual, insert key key_lookup))"

text \<open>The padding to 3000 entries: the entries appended to \<open>combined\<close>, and the state
  of the random source.\<close>

definition backfill :: "python \<Rightarrow> 'g generator \<Rightarrow> 'f float_ops \<Rightarrow> 'g \<Rightarrow>
    spotify_record list \<Rightarrow> (string \<times> string) set \<Rightarrow> nat \<Rightarrow> (error + 'f entry list) \<times> 'g" where
  "backfill py gen fl g spotify_records key_lookup n_combined =
     (if int n_combined < 3000 then
        (let needed = 3000 - int n_combined;
             remaining = filter (\<lambda>r. row_key py r \<notin> key_lookup) spotify_records;
             (shuffled, g') = rng_shuffle gen g remaining
         in (map_result (spotify_row_to_entry py fl) (py_prefix shuffled needed), g'))
      else (Inr [], g))"

text \<open>\<open>Counter(xs)\<close>: the counts, in the order of first occurrence.\<close>

definition count_one :: "('a \<times> nat) list \<Rightarrow> 'a \<Rightarrow> ('a \<times> nat) list" where
  "count_one c x = AList.update x ((case map_of c x of None \<Rightarrow> 0 | Some n \<Rightarrow> n) + 1) c"

definition counter :: "'a list \<Rightarrow> ('a \<times> nat) list" where
  "counter xs = foldl count_one [] xs"

record metadata =
  generatedAt :: string
  sourceFiles :: "(string \<times> string) list"
  recordCount :: nat
  meta_notes :: "string list"
  byDecade :: "(int \<times> nat) list"
  byPrimaryGenre :: "(string \<times> nat) list"
  byLanguage :: "(string \<times> nat) list"

record 'f payload =
  metadata :: metadata
  songs :: "'f entry list"

definition make_payload :: "string \<Rightarrow> nat \<Rightarrow> 'f entry list \<Rightarrow> 'f payload" where
  "make_payload utcnow skipped_manual combined =
     \<lparr>metadata =
        \<lparr>generatedAt = utcnow @ ''Z'',
         sourceFiles = [(''spotify'', RAW_DATA), (''manualFrench'', MANUAL_FR_FILE)],
         recordCount = length combined,
         meta_notes =
           [''Base dataset built from the Spotify + TidyTuesday 2020-01-21 playlists (pop, rock, latin, rap, r&b, edm).'',
            ''Filtered out soundtrack/anime keywords and releases before 1960.'',
            ''Added 100 manually curated French classics spanning 1960-2021.'',
            ''Manual duplicates skipped: '' @ str_nat skipped_manual],
         byDecade = counter (map (\<lambda>e. releaseYear e div 10 * 10) combined),
         byPrimaryGenre = counter (map primaryGenre combined),
         byLanguage = counter (map language combined)\<rparr>,
      songs = combined\<rparr>"

text \<open>
  \<open>main\<close>, in an environment: the runtime, the two input files, the initial state of
  \<open>rng\<close> (that of \<open>random.Random(42)\<close>) and \<open>utcnow\<close>, the reading of the clock as
  \<open>isoformat(timespec='seconds')\<close> prints it. The result is what the run leaves
  behind: \<open>Inr p\<close> when \<open>json.dump\<close> writes \<open>p\<close> to the output path and the process
  exits with status 0, \<open>Inl e\<close> when the exception \<open>e\<close> leaves \<open>main\<close>, which is before
  the output file is opened; and the state of \<open>rng\<close> at that point.
\<close>

definition main :: "python \<Rightarrow> 'g generator \<Rightarrow> 'f float_ops \<Rightarrow> 'g \<Rightarrow> string \<Rightarrow>
    raw_row list option \<Rightarrow> manual_row list option \<Rightarrow> (error + 'f payload) \<times> 'g" where
  "main py gen fl g utcnow raw_file manual_file =
     (case raw_file of
        None \<Rightarrow> (Inl SystemExit, g)
      | Some rows \<Rightarrow>
          (case load_spotify_records py rows of
             Inl e \<Rightarrow> (Inl e, g)
           | Inr spotify_records \<Rightarrow>
               (let (spotify_selected, g1) = select_spotify_subset gen g spotify_records
                in case map_result (spotify_row_to_entry py fl) spotify_selected of
                     Inl e \<Rightarrow> (Inl e, g1)
                   | Inr spotify_entries \<Rightarrow>
                       (case load_manual_french_songs py manual_file of
                          Inl e \<Rightarrow> (Inl e, g1)
                        | Inr manual \<Rightarrow>
                            (let (manual_entries, skipped_manual, key_lookup) =
                                   foldl (merge_manual py)
                                     ([], 0, set (map (entry_key py) spotify_entries)) manual;
                                 combined = spotify_entries @ manual_entries
                             in case backfill py gen fl g1 spotify_records key_lookup
                                       (length combined) of
                                  (Inl e, g2) \<Rightarrow> (Inl e, g2)
                                | (Inr extra, g2) \<Rightarrow>
                                    (Inr (make_payload utcnow skipped_manual
                                            (sort_key (\<lambda>item. (releaseYear item, title item))
                                               (combined @ extra))),
                                     g2))))))"

text \<open>The exit status of the process.\<close>

definition exit_status :: "error + 'a \<Rightarrow> int" where
  "exit_status res = (case res of Inl e \<Rightarrow> 1 | Inr p \<Rightarrow> 0)"

section \<open>Notions used in the statements and proofs\<close>

text \<open>What the loop of \<open>load_spotify_records\<close> guarantees of a loaded record, and of
  its state.\<close>

definition record_ok :: "python \<Rightarrow> raw_row list \<Rightarrow> spotify_record \<Rightarrow> bool" where
  "record_ok py rows rec =
     (row rec \<in> set rows \<and>
      parse_year py (track_album_release_date (row rec)) = Inr (Some (release_year rec)) \<and>
      1960 \<le> release_year rec \<and> decade rec = release_year rec div 10 * 10 \<and>
      decade rec \<in> fst ` set DECADE_TARGETS \<and> \<not> is_soundtrack py (row rec))"

definition loaded_ok :: "python \<Rightarrow> raw_row list \<Rightarrow> spotify_record list \<times> string set \<Rightarrow> bool" where
  "loaded_ok py rows st =
     (snd st = set (map (track_id \<circ> row) (fst st)) \<and>
      distinct (map (track_id \<circ> row) (fst st)) \<and>
      list_all (record_ok py rows) (fst st))"

text \<open>The room left in a list of genre groups, and what can be taken from a list of
  genres without going below one.\<close>

definition headroom :: "allocations \<Rightarrow> groups \<Rightarrow> int" where
  "headroom al ord = sum_list (map (\<lambda>kv. int (length (snd kv)) - alloc_get al (fst kv)) ord)"

definition removable :: "allocations \<Rightarrow> (string \<times> 'b) list \<Rightarrow> int" where
  "removable al ord = sum_list (map (\<lambda>kv. max 0 (alloc_get al (fst kv) - 1)) ord)"

text \<open>The groups of a bucket: one per genre, each holding the rows of its genre in
  the order of the bucket.\<close>

definition groups_ok :: "spotify_record list \<Rightarrow> groups \<Rightarrow> bool" where
  "groups_ok xs groups =
     (distinct (map fst groups) \<and>
      (\<forall>g items. map_of groups g = Some items \<longrightarrow>
          items = filter (\<lambda>r. genre_of r = g) xs \<and> items \<noteq> []) \<and>
      fst ` set groups = genre_of ` set xs \<and>
      sum_list (map (\<lambda>kv. int (length (snd kv))) groups) = int (length xs))"

text \<open>The allocation of one genre before reconciliation.\<close>

definition quota :: "int \<Rightarrow> int \<Rightarrow> string \<times> spotify_record list \<Rightarrow> string \<times> int" where
  "quota target n kv =
     (fst kv, min (max 1 (py_round_div (target * int (length (snd kv))) n)) (int (length (snd kv))))"

text \<open>The identifiers marked as used when the loop of \<open>select_spotify_subset\<close> reaches
  a decade.\<close>

definition used_before :: "'g generator \<Rightarrow> 'g \<Rightarrow> spotify_record list \<Rightarrow> int \<Rightarrow> string set" where
  "used_before gen g records dec =
     fst (snd (select_loop gen records (takeWhile (\<lambda>dt. fst dt \<noteq> dec) DECADE_TARGETS)
       ([], {}, g)))"

text \<open>The invariant of that loop: every selected identifier is marked, and rows
  selected for different decades have different identifiers.\<close>

definition partitioned :: "spotify_record list \<times> string set \<times> 'g \<Rightarrow> bool" where
  "partitioned st =
     (id_of ` set (fst st) \<subseteq> fst (snd st) \<and>
      (\<forall>r1 \<in> set (fst st). \<forall>r2 \<in> set (fst st).
          decade r1 \<noteq> decade r2 \<longrightarrow> id_of r1 \<noteq> id_of r2))"

text \<open>
  The reconciliation of a shortfall in the words of the specification, "one unit at a
  time": a pass gives one unit to each genre, in order, that has room left, while
  units remain; \<open>n\<close> passes.
\<close>

fun give_units :: "allocations \<Rightarrow> int \<Rightarrow> groups \<Rightarrow> allocations \<times> int" where
  "give_units al d [] = (al, d)"
| "give_units al d ((genre, items) # ord) =
     (if d \<le> 0 then (al, d)
      else if alloc_get al genre < int (length items)
      then give_units (AList.update genre (alloc_get al genre + 1) al) (d - 1) ord
      else give_units al d ord)"

fun spec_unit_rounds :: "nat \<Rightarrow> allocations \<Rightarrow> int \<Rightarrow> groups \<Rightarrow> allocations" where
  "spec_unit_rounds 0 al d ord = al"
| "spec_unit_rounds (Suc n) al d ord =
     (case give_units al d ord of (al', d') \<Rightarrow> spec_unit_rounds n al' d' ord)"

text \<open>Rows to run the script on.\<close>

definition example_row :: "string \<Rightarrow> string \<Rightarrow> string \<Rightarrow> string \<Rightarrow> string \<Rightarrow> raw_row" where
  "example_row tid name art date genre =
     \<lparr>track_id = tid, track_name = name, track_artist = art, track_popularity = ''50'',
      track_album_name = ''Album'', track_album_release_date = date,
      playlist_name = ''Playlist'', playlist_id = ''pl'', playlist_genre = genre,
      playlist_subgenre = ''sub'', danceability = ''0.5'', energy = ''0.5'',
      speechiness = ''0.5'', acousticness = ''0.5'', instrumentalness = ''0.5'',
      liveness = ''0.5'', valence = ''0.5'', tempo = ''120.0'', duration_ms = ''200000''\<rparr>"

definition example_record :: "string \<Rightarrow> string \<Rightarrow> int \<Rightarrow> spotify_record" where
  "example_record tid genre year =
     \<lparr>row = example_row tid (''Song '' @ tid) ''Artist'' (str_of_int year @ ''-01-01'') genre,
      release_year = year, decade = year div 10 * 10\<rparr>"

definition example_bucket :: "string list \<Rightarrow> spotify_record list" where
  "example_bucket genres =
     concat (map (\<lambda>g. map (\<lambda>i. example_record (g @ i) g 1999) [''1'', ''2'', ''3'']) genres)"

definition example_records :: "spotify_record list" where
  "example_records =
     [example_record ''a'' ''rock'' 1999, example_record ''b'' ''pop'' 2021,
      example_record ''a'' ''rock'' 2005]"

definition example_shortfall_bucket :: "spotify_record list" where
  "example_shortfall_bucket = example_bucket [''a'', ''b'', ''c'', ''d'', ''e'']"

text \<open>The numeric columns that \<open>spotify_row_to_entry\<close> converts with \<open>float\<close> all
  convert.\<close>

definition floats_parse :: "'f float_ops \<Rightarrow> raw_row \<Rightarrow> bool" where
  "floats_parse fl r =
     list_all (\<lambda>s. float_of fl s \<noteq> None)
       [duration_ms r, tempo r, danceability r, energy r, speechiness r, acousticness r,
        instrumentalness r, liveness r, valence r]"

text \<open>A small model of \<open>float\<close> to run the script on: it reads digits with at most one
  point, and a float is the text it was read from.\<close>

definition text_floats :: "string float_ops" where
  "text_floats =
     \<lparr>float_of = (\<lambda>s. if filter (\<lambda>c. c \<noteq> CHR ''.'') s \<noteq> [] \<and>
                         list_all is_digit (filter (\<lambda>c. c \<noteq> CHR ''.'') s) \<and>
                         length (filter (\<lambda>c. c = CHR ''.'') s) \<le> 1
                      then Some s else None),
      ms_to_seconds = (\<lambda>x. ''round('' @ x @ '' / 1000, 2)''),
      round3 = (\<lambda>x. ''round('' @ x @ '', 3)'')\<rparr>"

text \<open>What a run leaves: the songs written (none when the run fails) and the timestamp
  written.\<close>

definition songs_of :: "(error + 'f payload) \<times> 'g \<Rightarrow> 'f entry list" where
  "songs_of res = (case fst res of Inl e \<Rightarrow> [] | Inr p \<Rightarrow> songs p)"

definition generated_at_of :: "(error + 'f payload) \<times> 'g \<Rightarrow> string" where
  "generated_at_of res = (case fst res of Inl e \<Rightarrow> [] | Inr p \<Rightarrow> generatedAt (metadata p))"

text \<open>A result with the timestamp of its metadata blanked.\<close>

definition without_timestamp :: "error + 'f payload \<Rightarrow> error + 'f payload" where
  "without_timestamp res =
     map_sum id (\<lambda>p. p\<lparr>metadata := (metadata p)\<lparr>generatedAt := []\<rparr>\<rparr>) res"

text \<open>Input files to run the script on: two rows with one normalized title and artist,
  a curated list whose first row has that key too, a row without popularity and a row
  whose popularity is not a number.\<close>

definition example_raw_rows :: "raw_row list" where
  "example_raw_rows =
     [example_row ''t1'' ''Song'' ''Abc'' ''1999-01-01'' ''rock'',
      example_row ''t2'' '' song'' ''ABC '' ''1999-06-01'' ''pop'']"

definition example_manual_rows :: "manual_row list" where
  "example_manual_rows =
     [\<lparr>m_year = ''1965'', m_artist = ''abc'', m_title = ''SONG'', m_album = ''Album'',
       m_primary_genre = ''chanson'', m_subgenre = ''classic'', m_language = ''fr'',
       m_youtube_hint = ''abc song''\<rparr>,
      \<lparr>m_year = ''1964'', m_artist = ''Jacques Brel'', m_title = ''Amsterdam'',
       m_album = ''Olympia 1964'', m_primary_genre = ''chanson'', m_subgenre = ''classic'',
       m_language = ''fr'', m_youtube_hint = ''Jacques Brel Amsterdam''\<rparr>]"

definition example_no_popularity :: spotify_record where
  "example_no_popularity =
     \<lparr>row = (example_row ''t1'' ''Song'' ''Abc'' ''1999-01-01'' ''rock'')\<lparr>track_popularity := []\<rparr>,
      release_year = 1999, decade = 1990\<rparr>"

definition example_bad_rows :: "raw_row list" where
  "example_bad_rows =
     [(example_row ''t1'' ''Song'' ''Abc'' ''1999-01-01'' ''rock'')\<lparr>track_popularity := ''abc''\<rparr>]"

text \<open>A decade with more rows than its quota and more genres than its quota: 103 rows of
  2021, three of the genre \<open>pop\<close> and a hundred with a genre of their own each.\<close>

definition example_full_ids :: "string list" where
  "example_full_ids =
     [''p1'', ''p2'', ''p3''] @
     concat (map (\<lambda>a. map (\<lambda>b. [a, b]) ''0123456789'') ''0123456789'')"

definition example_full_decade :: "spotify_record list" where
  "example_full_decade =
     map (\<lambda>tid. example_record tid (if hd tid = CHR ''p'' then ''pop'' else tid) 2021)
       example_full_ids"

text \<open>A table whose second row has a date that starts with the superscript digit U+00B2
  (the bytes \<open>C2 B2\<close>): \<open>isdigit\<close> accepts the segment and \<open>int\<close> refuses it.\<close>

definition example_superscript_date :: string where
  "example_superscript_date = CHR 0xC2 # CHR 0xB2 # ''019-01-01''"

definition example_superscript_rows :: "raw_row list" where
  "example_superscript_rows =
     [example_row ''t1'' ''Song'' ''Abc'' ''1999-01-01'' ''rock'',
      example_row ''t2'' ''Tune'' ''Def'' example_superscript_date ''pop'',
      example_row ''t3'' ''Air'' ''Ghi'' ''2001-01-01'' ''rock'']"

section \<open>Properties of loading\<close>

lemma split_on_takeWhile:
  "split_on sep s = takeWhile (\<lambda>c. c \<noteq> sep) s # tl (split_on sep s)"
  by (induction s) (auto split: list.splits)

lemma parse_year_first_segment:
  "parse_year py s =
     (let seg = takeWhile (\<lambda>c. c \<noteq> CHR ''-'') (str_strip py s)
      in if s \<noteq> [] \<and> str_isdigit py seg
         then (case int_of_str py seg of None \<Rightarrow> Inl ValueError | Some y \<Rightarrow> Inr (Some y))
         else Inr None)"
  unfolding parse_year_def by (subst split_on_takeWhile) (simp add: Let_def)

lemma parse_year_error: "parse_year py s = Inl e \<Longrightarrow> e = ValueError"
  by (auto simp: parse_year_def Let_def split: if_splits option.splits)

lemma load_row_cases:
  "(load_row py (recs, seen) r = Inl ValueError \<and> track_id r \<notin> seen \<and>
      parse_year py (track_album_release_date r) = Inl ValueError) \<or>
   load_row py (recs, seen) r = Inr (recs, seen) \<or>
   (\<exists>rec. load_row py (recs, seen) r = Inr (recs @ [rec], insert (track_id r) seen) \<and>
      track_id r \<notin> seen \<and> row rec = r \<and> (r \<in> set rows \<longrightarrow> record_ok py rows rec))"
proof (cases "parse_year py (track_album_release_date r)")
  case (Inl e)
  with parse_year_error[OF Inl] show ?thesis by (simp add: load_row_def)
next
  case (Inr y)
  then show ?thesis
    by (auto simp: load_row_def record_ok_def Let_def split: option.splits)
qed

lemma loaded_ok_step:
  assumes "loaded_ok py rows st" "r \<in> set rows" "load_row py st r = Inr st'"
  shows "loaded_ok py rows st'"
proof -
  obtain recs seen where st: "st = (recs, seen)" by (cases st)
  from load_row_cases[of py recs seen r rows] show ?thesis
  proof (elim disjE exE conjE)
    assume "load_row py (recs, seen) r = Inl ValueError"
    with assms(3) st show ?thesis by simp
  next
    assume "load_row py (recs, seen) r = Inr (recs, seen)"
    with assms st show ?thesis by simp
  next
    fix rec
    assume y: "load_row py (recs, seen) r = Inr (recs @ [rec], insert (track_id r) seen)"
      "track_id r \<notin> seen" "row rec = r" "r \<in> set rows \<longrightarrow> record_ok py rows rec"
    with assms st have "st' = (recs @ [rec], insert (track_id r) seen)" by simp
    with y assms(1,2) st show ?thesis
      by (simp add: loaded_ok_def)
  qed
qed

lemma loaded_ok_loop:
  "loaded_ok py rows st \<Longrightarrow> set rs \<subseteq> set rows \<Longrightarrow> load_loop py st rs = Inr st' \<Longrightarrow>
   loaded_ok py rows st'"
proof (induction rs arbitrary: st)
  case Nil
  then show ?case by simp
next
  case (Cons r rs)
  from Cons.prems(3) obtain st1 where s: "load_row py st r = Inr st1"
    and l: "load_loop py st1 rs = Inr st'"
    by (auto split: sum.splits)
  from loaded_ok_step[OF Cons.prems(1) _ s] Cons.prems(2) have "loaded_ok py rows st1" by simp
  from Cons.IH[OF this _ l] Cons.prems(2) show ?case by simp
qed

lemma load_spotify_records_Inr:
  "load_spotify_records py rows = Inr recs \<Longrightarrow>
   \<exists>seen. load_loop py ([], {}) rows = Inr (recs, seen)"
  by (auto simp: load_spotify_records_def split: sum.splits)

lemma loaded_ok_load:
  assumes "load_spotify_records py rows = Inr recs"
  shows "loaded_ok py rows (recs, set (map (track_id \<circ> row) recs))"
proof -
  from load_spotify_records_Inr[OF assms] obtain seen where
    l: "load_loop py ([], {}) rows = Inr (recs, seen)" ..
  have "loaded_ok py rows ([], {})" by (simp add: loaded_ok_def)
  from loaded_ok_loop[OF this _ l] have o: "loaded_ok py rows (recs, seen)" by simp
  then have "seen = set (map (track_id \<circ> row) recs)" by (simp add: loaded_ok_def)
  with o show ?thesis by simp
qed

lemma load_records_ok:
  "load_spotify_records py rows = Inr recs \<Longrightarrow> rec \<in> set recs \<Longrightarrow> record_ok py rows rec"
  using loaded_ok_load[of py rows recs] by (simp add: loaded_ok_def list_all_iff)

lemma load_distinct_ids:
  "load_spotify_records py rows = Inr recs \<Longrightarrow> distinct (map (track_id \<circ> row) recs)"
  using loaded_ok_load[of py rows recs] by (simp add: loaded_ok_def)

lemma load_loop_append:
  "load_loop py st (xs @ ys) =
     (case load_loop py st xs of Inl e \<Rightarrow> Inl e | Inr st' \<Rightarrow> load_loop py st' ys)"
  by (induction xs arbitrary: st) (auto split: sum.splits)

lemma load_row_skips_bad_year:
  "parse_year py (track_album_release_date r) = Inr None \<or>
   (\<exists>y. parse_year py (track_album_release_date r) = Inr (Some y) \<and> y < 1960) \<Longrightarrow>
   load_row py st r = Inr st"
  by (auto simp: load_row_def split: prod.splits)

lemma load_row_raises:
  "parse_year py (track_album_release_date r) = Inl e \<Longrightarrow> track_id r \<notin> snd st \<Longrightarrow>
   load_row py st r = Inl e"
  by (auto simp: load_row_def split: prod.splits)

lemma load_raises:
  assumes "load_spotify_records py pre = Inr recs"
    and "track_id r \<notin> (track_id \<circ> row) ` set recs"
    and "parse_year py (track_album_release_date r) = Inl e"
  shows "load_spotify_records py (pre @ r # post) = Inl e"
proof -
  from load_spotify_records_Inr[OF assms(1)] obtain seen where
    l: "load_loop py ([], {}) pre = Inr (recs, seen)" ..
  have "loaded_ok py pre ([], {})" by (simp add: loaded_ok_def)
  from loaded_ok_loop[OF this _ l] have "seen = (track_id \<circ> row) ` set recs"
    by (simp add: loaded_ok_def)
  with assms(2) have "track_id r \<notin> snd (recs, seen)" by simp
  from load_row_raises[OF assms(3) this] l show ?thesis
    by (simp add: load_spotify_records_def load_loop_append)
qed

lemma load_row_soundtrack:
  "is_soundtrack py r \<Longrightarrow>
   load_row py st r =
     (case parse_year py (track_album_release_date r) of
        Inl e \<Rightarrow> if track_id r \<in> snd st then Inr st else Inl e
      | Inr y \<Rightarrow> Inr st)"
  by (auto simp: load_row_def Let_def split: prod.splits option.splits sum.splits)

lemma ost_is_soundtrack:
  "sublist ''ost'' (str_lower py (track_name r @ '' '' @ track_album_name r)) \<Longrightarrow>
   is_soundtrack py r"
  by (simp add: is_soundtrack_def FILM_KEYWORDS_def)

section \<open>The allocation plan\<close>

lemma alloc_get_update: "alloc_get (AList.update k v al) = (alloc_get al)(k := v)"
  by (rule ext) (simp add: alloc_get_def update_conv')

lemma map_fst_update_mem: "k \<in> fst ` set al \<Longrightarrow> map fst (AList.update k v al) = map fst al"
  by (induction al) auto

lemma update_append_new: "k \<notin> fst ` set al \<Longrightarrow> AList.update k v al = al @ [(k, v)]"
  by (induction al) auto

lemma alloc_get_Cons: "alloc_get ((k, v) # al) = (alloc_get al)(k := v)"
  by (rule ext) (simp add: alloc_get_def)

lemma sum_list_alloc:
  "distinct (map fst al) \<Longrightarrow> sum_list (map snd al) = sum (alloc_get al) (fst ` set al)"
proof (induction al)
  case Nil
  then show ?case by simp
next
  case (Cons p al)
  obtain k v where p: "p = (k, v)" by (cases p)
  from Cons.prems p have k: "k \<notin> fst ` set al" and d: "distinct (map fst al)" by auto
  have "sum (alloc_get (p # al)) (fst ` set al) = sum (alloc_get al) (fst ` set al)"
    using k by (intro sum.cong) (auto simp: p alloc_get_Cons)
  then show ?case
    using k Cons.IH[OF d] by (simp add: p alloc_get_Cons)
qed

lemma fill_get_other:
  "g \<notin> fst ` set ord \<Longrightarrow> alloc_get (fill_shortfall al d ord) g = alloc_get al g"
  by (induction al d ord rule: fill_shortfall.induct) (auto simp: Let_def alloc_get_update)

lemma fill_keys:
  "fst ` set ord \<subseteq> fst ` set al \<Longrightarrow> map fst (fill_shortfall al d ord) = map fst al"
proof (induction al d ord rule: fill_shortfall.induct)
  case (1 allocations diff)
  then show ?case by simp
next
  case (2 al d g0 items0 rest)
  let ?avail = "int (length items0) - alloc_get al g0"
  let ?add = "min d ?avail"
  let ?al' = "AList.update g0 (alloc_get al g0 + ?add) al"
  from "2.prems" have g0: "g0 \<in> fst ` set al" and r: "fst ` set rest \<subseteq> fst ` set al" by auto
  have r': "fst ` set rest \<subseteq> fst ` set ?al'" using r by (auto simp: dom_update)
  show ?case
  proof (cases "d \<le> 0")
    case True
    then show ?thesis by simp
  next
    case d: False
    show ?thesis
    proof (cases "?avail \<le> 0")
      case True
      with d "2.IH"(1)[OF d refl True r] show ?thesis by simp
    next
      case a: False
      from d a "2.IH"(2)[OF d refl a refl r'] g0 show ?thesis
        by (simp add: Let_def map_fst_update_mem)
    qed
  qed
qed

lemma headroom_nonneg:
  "(\<forall>(g, items) \<in> set ord. alloc_get al g \<le> int (length items)) \<Longrightarrow> 0 \<le> headroom al ord"
  unfolding headroom_def by (induction ord) auto

lemma headroom_update_other:
  "k \<notin> fst ` set ord \<Longrightarrow> headroom (AList.update k v al) ord = headroom al ord"
  unfolding headroom_def by (induction ord) (auto simp: alloc_get_update)

lemma fill_bounds:
  "distinct (map fst ord) \<Longrightarrow> (\<forall>(g, items) \<in> set ord. alloc_get al g \<le> int (length items)) \<Longrightarrow>
   (\<forall>g. alloc_get al g \<le> alloc_get (fill_shortfall al d ord) g) \<and>
   (\<forall>(g, items) \<in> set ord. alloc_get (fill_shortfall al d ord) g \<le> int (length items))"
proof (induction al d ord rule: fill_shortfall.induct)
  case (1 allocations diff)
  then show ?case by simp
next
  case (2 al d g0 items0 rest)
  let ?avail = "int (length items0) - alloc_get al g0"
  from "2.prems" have g0: "g0 \<notin> fst ` set rest" and dr: "distinct (map fst rest)"
    and le0: "alloc_get al g0 \<le> int (length items0)"
    and ler: "\<forall>(g, items) \<in> set rest. alloc_get al g \<le> int (length items)" by auto
  show ?case
  proof (cases "d \<le> 0")
    case True
    with "2.prems" show ?thesis by auto
  next
    case d: False
    show ?thesis
    proof (cases "?avail \<le> 0")
      case True
      with d "2.IH"(1)[OF d refl True dr ler] le0 g0 show ?thesis
        by (auto simp: fill_get_other)
    next
      case a: False
      let ?add = "min d ?avail"
      let ?al' = "AList.update g0 (alloc_get al g0 + ?add) al"
      have ler': "\<forall>(g, items) \<in> set rest. alloc_get ?al' g \<le> int (length items)"
      proof (clarify)
        fix g items assume m: "(g, items) \<in> set rest"
        then have "g \<noteq> g0" using g0 by force
        with ler m show "alloc_get ?al' g \<le> int (length items)"
          by (auto simp: alloc_get_update)
      qed
      note ih = "2.IH"(2)[OF d refl a refl dr ler']
      have res: "fill_shortfall al d ((g0, items0) # rest) = fill_shortfall ?al' (d - ?add) rest"
        using d a by (simp add: Let_def)
      have "alloc_get (fill_shortfall ?al' (d - ?add) rest) g0 = alloc_get ?al' g0"
        using g0 by (rule fill_get_other)
      moreover have "alloc_get ?al' g0 \<le> int (length items0)"
        by (simp add: alloc_get_update)
      moreover have "\<And>g. alloc_get al g \<le> alloc_get ?al' g"
        using d a by (simp add: alloc_get_update)
      ultimately show ?thesis
        unfolding res using ih by (auto intro: order_trans)
    qed
  qed
qed

lemma sum_fun_upd: "finite K \<Longrightarrow> k \<in> K \<Longrightarrow> sum (f(k := v)) K = sum f K - f k + (v::int)"
  by (simp add: sum.remove[of K k] )

lemma fill_sum:
  "finite K \<Longrightarrow> fst ` set ord \<subseteq> K \<Longrightarrow> distinct (map fst ord) \<Longrightarrow>
   (\<forall>(g, items) \<in> set ord. alloc_get al g \<le> int (length items)) \<Longrightarrow> 0 \<le> d \<Longrightarrow>
   sum (alloc_get (fill_shortfall al d ord)) K = sum (alloc_get al) K + min d (headroom al ord)"
proof (induction al d ord rule: fill_shortfall.induct)
  case (1 allocations diff)
  then show ?case by (simp add: headroom_def)
next
  case (2 al d g0 items0 rest)
  let ?avail = "int (length items0) - alloc_get al g0"
  from "2.prems" have g0: "g0 \<notin> fst ` set rest" and dr: "distinct (map fst rest)"
    and le0: "alloc_get al g0 \<le> int (length items0)" and g0K: "g0 \<in> K" and rK: "fst ` set rest \<subseteq> K"
    and ler: "\<forall>(g, items) \<in> set rest. alloc_get al g \<le> int (length items)" by auto
  have hr: "0 \<le> headroom al rest" using ler by (rule headroom_nonneg)
  have hd: "headroom al ((g0, items0) # rest) = ?avail + headroom al rest"
    by (simp add: headroom_def)
  show ?case
  proof (cases "d \<le> 0")
    case True
    with "2.prems" hr le0 show ?thesis by (simp add: hd)
  next
    case d: False
    show ?thesis
    proof (cases "?avail \<le> 0")
      case True
      with d "2.IH"(1)[OF d refl True "2.prems"(1) rK dr ler "2.prems"(5)] le0 show ?thesis
        by (simp add: hd)
    next
      case a: False
      let ?add = "min d ?avail"
      let ?al' = "AList.update g0 (alloc_get al g0 + ?add) al"
      have ler': "\<forall>(g, items) \<in> set rest. alloc_get ?al' g \<le> int (length items)"
      proof (clarify)
        fix g items assume m: "(g, items) \<in> set rest"
        then have "g \<noteq> g0" using g0 by force
        with ler m show "alloc_get ?al' g \<le> int (length items)"
          by (auto simp: alloc_get_update)
      qed
      have d': "0 \<le> d - ?add" by simp
      note ih = "2.IH"(2)[OF d refl a refl "2.prems"(1) rK dr ler' d']
      have res: "fill_shortfall al d ((g0, items0) # rest) = fill_shortfall ?al' (d - ?add) rest"
        using d a by (simp add: Let_def)
      have s: "sum (alloc_get ?al') K = sum (alloc_get al) K + ?add"
        unfolding alloc_get_update sum_fun_upd[OF "2.prems"(1) g0K] by simp
      have h: "headroom ?al' rest = headroom al rest"
        using g0 by (rule headroom_update_other)
      show ?thesis
        unfolding res ih s h hd using hr d a by (simp add: min_def)
    qed
  qed
qed

lemma trim_genre_eq:
  "0 \<le> d \<Longrightarrow> trim_genre a d = (a - min (max 0 (a - 1)) d, d - min (max 0 (a - 1)) d)"
proof (induction a d rule: trim_genre.induct)
  case (1 a diff)
  show ?case
  proof (cases "1 < a \<and> 0 < diff")
    case False
    with "1.prems" show ?thesis by (subst trim_genre.simps) auto
  next
    case True
    show ?thesis
    proof (cases "diff - 1 = 0")
      case True
      with \<open>1 < a \<and> 0 < diff\<close> show ?thesis by (subst trim_genre.simps) auto
    next
      case False
      with True "1.prems" have "0 \<le> diff - 1" by simp
      from "1.IH"[OF True False this] True False show ?thesis
        by (subst trim_genre.simps) (auto simp: min_def max_def)
    qed
  qed
qed

lemma removable_nonneg: "0 \<le> removable al ord"
  unfolding removable_def by (induction ord) auto

lemma removable_update_other:
  "k \<notin> fst ` set ord \<Longrightarrow> removable (AList.update k v al) ord = removable al ord"
  unfolding removable_def by (induction ord) (auto simp: alloc_get_update)

lemma trim_step:
  "d \<noteq> 0 \<Longrightarrow> 0 \<le> d \<Longrightarrow> trim_excess al d ((g0, x) # rest) =
     trim_excess (AList.update g0 (alloc_get al g0 - min (max 0 (alloc_get al g0 - 1)) d) al)
       (d - min (max 0 (alloc_get al g0 - 1)) d) rest"
  by (simp add: trim_genre_eq)

lemma trim_keys:
  "fst ` set ord \<subseteq> fst ` set al \<Longrightarrow> 0 \<le> d \<Longrightarrow> map fst (trim_excess al d ord) = map fst al"
proof (induction ord arbitrary: al d)
  case Nil
  then show ?case by simp
next
  case (Cons p rest)
  obtain g0 x where p: "p = (g0, x)" by (cases p)
  let ?k = "min (max 0 (alloc_get al g0 - 1)) d"
  let ?al' = "AList.update g0 (alloc_get al g0 - ?k) al"
  from Cons.prems p have g0: "g0 \<in> fst ` set al" and r: "fst ` set rest \<subseteq> fst ` set al" by auto
  have r': "fst ` set rest \<subseteq> fst ` set ?al'" using r by (auto simp: dom_update)
  show ?case
  proof (cases "d = 0")
    case True
    then show ?thesis by (simp add: p)
  next
    case False
    have "0 \<le> d - ?k" by simp
    from Cons.IH[OF r' this] g0 show ?thesis
      unfolding p trim_step[OF False Cons.prems(2)] by (simp add: map_fst_update_mem)
  qed
qed

lemma trim_bounds:
  "0 \<le> d \<Longrightarrow> alloc_get (trim_excess al d ord) g \<le> alloc_get al g \<and>
     (1 \<le> alloc_get al g \<longrightarrow> 1 \<le> alloc_get (trim_excess al d ord) g)"
proof (induction ord arbitrary: al d)
  case Nil
  then show ?case by simp
next
  case (Cons p rest)
  obtain g0 x where p: "p = (g0, x)" by (cases p)
  let ?k = "min (max 0 (alloc_get al g0 - 1)) d"
  let ?al' = "AList.update g0 (alloc_get al g0 - ?k) al"
  show ?case
  proof (cases "d = 0")
    case True
    then show ?thesis by (simp add: p)
  next
    case False
    have d': "0 \<le> d - ?k" by simp
    have a: "alloc_get ?al' g \<le> alloc_get al g"
      using Cons.prems by (simp add: alloc_get_update)
    have b: "1 \<le> alloc_get al g \<Longrightarrow> 1 \<le> alloc_get ?al' g"
      using Cons.prems by (auto simp: alloc_get_update min_def max_def)
    from Cons.IH[OF d', of ?al'] a b show ?thesis
      unfolding p trim_step[OF False Cons.prems] by linarith
  qed
qed

lemma trim_sum:
  "finite K \<Longrightarrow> fst ` set ord \<subseteq> K \<Longrightarrow> distinct (map fst ord) \<Longrightarrow> 0 \<le> d \<Longrightarrow>
   sum (alloc_get (trim_excess al d ord)) K = sum (alloc_get al) K - min d (removable al ord)"
proof (induction ord arbitrary: al d)
  case Nil
  then show ?case by (simp add: removable_def)
next
  case (Cons p rest)
  obtain g0 x where p: "p = (g0, x)" by (cases p)
  let ?m = "max 0 (alloc_get al g0 - 1)"
  let ?k = "min ?m d"
  let ?al' = "AList.update g0 (alloc_get al g0 - ?k) al"
  from Cons.prems p have g0: "g0 \<notin> fst ` set rest" and dr: "distinct (map fst rest)"
    and g0K: "g0 \<in> K" and rK: "fst ` set rest \<subseteq> K" by auto
  have rr: "0 \<le> removable al rest" by (rule removable_nonneg)
  have hd: "removable al ((g0, x) # rest) = ?m + removable al rest"
    by (simp add: removable_def)
  show ?case
  proof (cases "d = 0")
    case True
    with rr show ?thesis by (simp add: p hd)
  next
    case False
    have d': "0 \<le> d - ?k" by simp
    note ih = Cons.IH[OF Cons.prems(1) rK dr d', of ?al']
    have s: "sum (alloc_get ?al') K = sum (alloc_get al) K - ?k"
      unfolding alloc_get_update sum_fun_upd[OF Cons.prems(1) g0K] by simp
    have h: "removable ?al' rest = removable al rest"
      using g0 by (rule removable_update_other)
    show ?thesis
      unfolding p trim_step[OF False Cons.prems(4)] ih s h hd using rr Cons.prems(4)
      by (simp add: min_def)
  qed
qed

lemma sum_list_update:
  "distinct (map fst al) \<Longrightarrow>
   sum_list (map (\<lambda>kv. h (snd kv)) (AList.update k v al)) =
     sum_list (map (\<lambda>kv. h (snd kv)) al) - (case map_of al k of None \<Rightarrow> 0 | Some old \<Rightarrow> h old) + (h v :: int)"
proof (induction al)
  case Nil
  then show ?case by simp
next
  case (Cons p al)
  then show ?case
    by (cases p) (auto simp: map_of_eq_None_iff[symmetric] simp del: map_of_eq_None_iff)
qed

lemma groups_ok_step:
  assumes "groups_ok xs gs"
  shows "groups_ok (xs @ [r]) (group_append gs r)"
proof -
  let ?k = "genre_of r"
  let ?old = "case map_of gs ?k of None \<Rightarrow> [] | Some items \<Rightarrow> items"
  from assms have d: "distinct (map fst gs)"
    and f: "\<And>g items. map_of gs g = Some items \<Longrightarrow> items = filter (\<lambda>r. genre_of r = g) xs \<and> items \<noteq> []"
    and k: "fst ` set gs = genre_of ` set xs"
    and s: "sum_list (map (\<lambda>kv. int (length (snd kv))) gs) = int (length xs)"
    unfolding groups_ok_def by blast+
  have old: "?old = filter (\<lambda>x. genre_of x = ?k) xs"
  proof (cases "map_of gs ?k")
    case None
    then have "?k \<notin> genre_of ` set xs" using k by (simp add: map_of_eq_None_iff)
    then have "filter (\<lambda>x. genre_of x = ?k) xs = []" by (auto simp: filter_empty_conv image_iff)
    with None show ?thesis by simp
  next
    case (Some items)
    with f[OF Some] show ?thesis by simp
  qed
  have m: "map_of (group_append gs r) = (map_of gs)(?k \<mapsto> ?old @ [r])"
    by (simp add: group_append_def update_conv')
  have 1: "distinct (map fst (group_append gs r))"
    using d by (simp add: group_append_def distinct_update)
  have 2: "items = filter (\<lambda>x. genre_of x = g) (xs @ [r]) \<and> items \<noteq> []"
    if "map_of (group_append gs r) g = Some items" for g items
  proof (cases "g = ?k")
    case True
    with that m old show ?thesis by auto
  next
    case False
    with that m have "map_of gs g = Some items" by simp
    from f[OF this] False show ?thesis by auto
  qed
  have 3: "fst ` set (group_append gs r) = genre_of ` set (xs @ [r])"
    using k by (auto simp: group_append_def dom_update)
  have "sum_list (map (\<lambda>kv. int (length (snd kv))) (group_append gs r)) =
        sum_list (map (\<lambda>kv. int (length (snd kv))) gs) -
          (case map_of gs ?k of None \<Rightarrow> 0 | Some old \<Rightarrow> int (length old)) + int (length (?old @ [r]))"
    unfolding group_append_def by (rule sum_list_update[OF d, where h = "\<lambda>v. int (length v)"])
  then have 4: "sum_list (map (\<lambda>kv. int (length (snd kv))) (group_append gs r)) = int (length (xs @ [r]))"
    using s by (simp split: option.splits)
  from 1 2 3 4 show ?thesis unfolding groups_ok_def by blast
qed

lemma groups_ok_group_by: "groups_ok bucket (group_by_genre bucket)"
proof (induction bucket rule: rev_induct)
  case Nil
  then show ?case by (simp add: groups_ok_def group_by_genre_def)
next
  case (snoc r xs)
  then show ?case by (simp add: group_by_genre_def groups_ok_step)
qed

lemma groups_ok_mem:
  "groups_ok xs gs \<Longrightarrow> (g, items) \<in> set gs \<Longrightarrow>
     items = filter (\<lambda>r. genre_of r = g) xs \<and> items \<noteq> []"
  unfolding groups_ok_def by (metis map_of_is_SomeI)

lemma update_last: "k \<notin> fst ` set al \<Longrightarrow> AList.update k v' (al @ [(k, v)]) = al @ [(k, v')]"
  by (induction al) auto

lemma initial_allocation_new:
  "fst kv \<notin> fst ` set acc \<Longrightarrow> initial_allocation target n acc kv = acc @ [quota target n kv]"
  by (cases kv)
    (simp add: initial_allocation_def quota_def update_append_new update_last alloc_get_def
      map_add_def map_of_eq_None_iff[symmetric] del: map_of_eq_None_iff)

lemma foldl_initial_allocation:
  "distinct (map fst gs) \<Longrightarrow> fst ` set gs \<inter> fst ` set acc = {} \<Longrightarrow>
   foldl (initial_allocation target n) acc gs = acc @ map (quota target n) gs"
proof (induction gs arbitrary: acc)
  case Nil
  then show ?case by simp
next
  case (Cons kv gs)
  from Cons.prems have new: "fst kv \<notin> fst ` set acc" by auto
  have "fst ` set gs \<inter> fst ` set (acc @ [quota target n kv]) = {}"
    using Cons.prems by (auto simp: quota_def)
  with Cons.IH[of "acc @ [quota target n kv]"] Cons.prems(1) show ?case
    by (simp add: initial_allocation_new[OF new])
qed

lemma initial_allocations_eq:
  "distinct (map fst groups) \<Longrightarrow>
   initial_allocations target groups =
     map (quota target (sum_list (map (\<lambda>kv. int (length (snd kv))) groups))) groups"
  by (simp add: initial_allocations_def foldl_initial_allocation case_prod_unfold)

lemma sum_list_insort_key:
  "sum_list (map h (insort_key k x xs)) = (h x :: int) + sum_list (map h xs)"
  by (induction xs) auto

lemma sum_list_sort_key: "sum_list (map h (sort_key k xs)) = (sum_list (map h xs) :: int)"
  by (induction xs) (auto simp: sum_list_insort_key)

lemma sum_list_sorted_reverse:
  "sum_list (map h (sorted_reverse k xs)) = (sum_list (map h xs) :: int)"
  by (simp add: sorted_reverse_def rev_map[symmetric] sum_list_sort_key)

lemma set_sorted_reverse: "set (sorted_reverse k xs) = set xs"
  by (simp add: sorted_reverse_def)

lemma distinct_keys_sorted_reverse:
  "distinct (map fst xs) \<Longrightarrow> distinct (map fst (sorted_reverse k xs))"
  by (simp add: sorted_reverse_def distinct_map)

lemma alloc_get_mem:
  "distinct (map fst al) \<Longrightarrow> (g, a) \<in> set al \<Longrightarrow> alloc_get al g = a"
  by (simp add: alloc_get_def)

lemma allocation_plan_facts:
  assumes big: "target < int (length bucket)"
  defines "gs \<equiv> group_by_genre bucket"
  defines "plan \<equiv> allocation_plan bucket target"
  shows "sum_list (map snd plan) = max target (int (length gs))"
    and "map fst plan = map fst gs"
    and "\<forall>(g, items) \<in> set gs. 1 \<le> alloc_get plan g \<and> alloc_get plan g \<le> int (length items)"
proof -
  define N where "N = sum_list (map (\<lambda>kv. int (length (snd kv))) gs)"
  define al0 where "al0 = initial_allocations target gs"
  define K where "K = fst ` set gs"
  define cur where "cur = sum_list (map snd al0)"
  have ok: "groups_ok bucket gs" unfolding gs_def by (rule groups_ok_group_by)
  then have dg: "distinct (map fst gs)" and N: "N = int (length bucket)"
    by (simp_all add: groups_ok_def N_def)
  have al0: "al0 = map (quota target N) gs"
    unfolding al0_def N_def by (rule initial_allocations_eq[OF dg])
  have k0: "map fst al0 = map fst gs" by (simp add: al0 quota_def comp_def)
  have d0: "distinct (map fst al0)" using dg by (simp add: k0)
  have K0: "fst ` set al0 = K" unfolding K_def using k0 by (metis set_map)
  have fK: "finite K" by (simp add: K_def)
  have get0: "alloc_get al0 g = snd (quota target N (g, items))" if "(g, items) \<in> set gs" for g items
  proof -
    from that have "(g, snd (quota target N (g, items))) \<in> set al0"
      by (force simp: al0 quota_def)
    then show ?thesis by (rule alloc_get_mem[OF d0])
  qed
  have b0: "1 \<le> alloc_get al0 g \<and> alloc_get al0 g \<le> int (length items)"
    if "(g, items) \<in> set gs" for g items
  proof -
    from groups_ok_mem[OF ok that] have "items \<noteq> []" by blast
    then have "1 \<le> int (length items)" by (cases items) auto
    then show ?thesis by (simp add: get0[OF that] quota_def)
  qed
  have b0K: "1 \<le> alloc_get al0 g" if "g \<in> K" for g
    using that b0 unfolding K_def by force
  have cur: "cur = sum (alloc_get al0) K"
    unfolding cur_def K0[symmetric] by (rule sum_list_alloc[OF d0])
  have G: "int (length gs) = int (card K)"
    unfolding K_def using distinct_card[OF dg] by (simp add: image_set del: set_map)
  have "(\<Sum>g\<in>K. (1::int)) \<le> sum (alloc_get al0) K"
    by (rule sum_mono) (rule b0K)
  then have Gle: "int (length gs) \<le> cur" by (simp add: G cur)
  have surj: "sum_list (map (\<lambda>kv. alloc_get al0 (fst kv)) gs) = cur"
  proof -
    have "map (\<lambda>kv. alloc_get al0 (fst kv)) gs = map snd al0"
      unfolding al0 by (auto simp: get0[unfolded al0])
    then show ?thesis by (simp add: cur_def)
  qed
  have hr: "headroom al0 gs = N - cur"
    unfolding headroom_def by (simp add: sum_list_subtractf surj N_def)
  have rm: "removable al0 al0 = cur - int (length gs)"
  proof -
    have "map (\<lambda>kv. max 0 (alloc_get al0 (fst kv) - 1)) al0 = map (\<lambda>kv. snd kv - 1) al0"
    proof (rule map_cong[OF refl])
      fix kv assume m: "kv \<in> set al0"
      then have e: "alloc_get al0 (fst kv) = snd kv"
        using alloc_get_mem[OF d0, of "fst kv" "snd kv"] by simp
      from m have "fst kv \<in> K" using K0 by force
      from b0K[OF this] e show "max 0 (alloc_get al0 (fst kv) - 1) = snd kv - 1" by simp
    qed
    then have "removable al0 al0 = sum_list (map (\<lambda>kv. snd kv - 1) al0)"
      unfolding removable_def by (rule arg_cong)
    also have "\<dots> = cur - int (length al0)"
      by (simp add: sum_list_subtractf cur_def sum_list_triv)
    finally show ?thesis using k0 by (metis length_map)
  qed
  have plan: "plan = reconcile target gs al0"
    by (simp add: plan_def allocation_plan_def gs_def al0_def Let_def)
  consider (less) "cur < target" | (more) "target < cur" | (eq) "cur = target" by linarith
  then have "sum_list (map snd plan) = max target (int (length gs)) \<and> map fst plan = map fst gs \<and>
    (\<forall>(g, items) \<in> set gs. 1 \<le> alloc_get plan g \<and> alloc_get plan g \<le> int (length items))"
  proof cases
    case less
    define ord where "ord = sorted_reverse (shortfall_key al0) gs"
    have p: "plan = fill_shortfall al0 (target - cur) ord"
      using less by (simp add: plan reconcile_def cur_def ord_def)
    have so: "set ord = set gs" by (simp add: ord_def set_sorted_reverse)
    have dord: "distinct (map fst ord)" unfolding ord_def by (rule distinct_keys_sorted_reverse[OF dg])
    have kord: "fst ` set ord \<subseteq> K" by (simp add: so K_def)
    have le: "\<forall>(g, items) \<in> set ord. alloc_get al0 g \<le> int (length items)"
      using b0 so by auto
    have hro: "headroom al0 ord = N - cur"
      unfolding headroom_def ord_def sum_list_sorted_reverse using hr by (simp add: headroom_def)
    have keys: "map fst plan = map fst gs"
      unfolding p using fill_keys[of ord al0 "target - cur"] kord K0 k0 by simp
    have dp: "distinct (map fst plan)" using keys dg by simp
    have "sum (alloc_get plan) K = cur + min (target - cur) (N - cur)"
      using fill_sum[OF fK kord dord le, of "target - cur"] less
      by (simp add: p hro cur[symmetric])
    moreover have "sum_list (map snd plan) = sum (alloc_get plan) K"
      using sum_list_alloc[OF dp] keys k0 K0 by (metis set_map)
    ultimately have s: "sum_list (map snd plan) = max target (int (length gs))"
      using big N less Gle by simp
    from fill_bounds[OF dord le, of "target - cur"] b0 so
    have "\<forall>(g, items) \<in> set gs. 1 \<le> alloc_get plan g \<and> alloc_get plan g \<le> int (length items)"
      unfolding p by (fastforce intro: order_trans)
    with s keys show ?thesis by blast
  next
    case more
    define ord where "ord = sorted_reverse snd al0"
    have p: "plan = trim_excess al0 (cur - target) ord"
      using more by (simp add: plan reconcile_def cur_def ord_def)
    have so: "set ord = set al0" by (simp add: ord_def set_sorted_reverse)
    have dord: "distinct (map fst ord)" unfolding ord_def by (rule distinct_keys_sorted_reverse[OF d0])
    have kord: "fst ` set ord \<subseteq> K" by (simp add: so K0)
    have d: "0 \<le> cur - target" using more by simp
    have rmo: "removable al0 ord = cur - int (length gs)"
      unfolding removable_def ord_def sum_list_sorted_reverse using rm by (simp add: removable_def)
    have keys: "map fst plan = map fst gs"
      unfolding p using trim_keys[of ord al0 "cur - target"] kord K0 k0 d by simp
    have dp: "distinct (map fst plan)" using keys dg by simp
    have "sum (alloc_get plan) K = cur - min (cur - target) (cur - int (length gs))"
      unfolding p using trim_sum[OF fK kord dord d, of al0] by (simp add: rmo cur)
    moreover have "sum_list (map snd plan) = sum (alloc_get plan) K"
      using sum_list_alloc[OF dp] keys k0 K0 by (metis set_map)
    ultimately have s: "sum_list (map snd plan) = max target (int (length gs))"
      by simp
    have "\<forall>(g, items) \<in> set gs. 1 \<le> alloc_get plan g \<and> alloc_get plan g \<le> int (length items)"
    proof clarify
      fix g items assume m: "(g, items) \<in> set gs"
      from trim_bounds[OF d, of al0 ord g] b0[OF m]
      show "1 \<le> alloc_get plan g \<and> alloc_get plan g \<le> int (length items)"
        unfolding p by linarith
    qed
    with s keys show ?thesis by blast
  next
    case eq
    then have p: "plan = al0" by (simp add: plan reconcile_def cur_def)
    from eq Gle have "sum_list (map snd plan) = max target (int (length gs))"
      by (simp add: p cur_def)
    with b0 k0 show ?thesis by (auto simp: p)
  qed
  then show "sum_list (map snd plan) = max target (int (length gs))"
    and "map fst plan = map fst gs"
    and "\<forall>(g, items) \<in> set gs. 1 \<le> alloc_get plan g \<and> alloc_get plan g \<le> int (length items)"
    by blast+
qed

lemma headroom_Cons: "headroom al (kv # ord) = int (length (snd kv)) - alloc_get al (fst kv) + headroom al ord"
  by (simp add: headroom_def)

lemma fill_closed_form:
  "distinct (map fst ord) \<Longrightarrow> (\<forall>(g, items) \<in> set ord. alloc_get al g \<le> int (length items)) \<Longrightarrow>
   0 \<le> d \<Longrightarrow> i < length ord \<Longrightarrow>
   alloc_get (fill_shortfall al d ord) (fst (ord ! i)) =
     alloc_get al (fst (ord ! i)) +
       min (max 0 (d - headroom al (take i ord)))
           (int (length (snd (ord ! i))) - alloc_get al (fst (ord ! i)))"
proof (induction ord arbitrary: al d i)
  case Nil
  then show ?case by simp
next
  case (Cons p rest)
  obtain g0 items0 where p: "p = (g0, items0)" by (cases p)
  let ?avail = "int (length items0) - alloc_get al g0"
  let ?add = "min d ?avail"
  let ?al' = "AList.update g0 (alloc_get al g0 + ?add) al"
  from Cons.prems p have g0: "g0 \<notin> fst ` set rest" and dr: "distinct (map fst rest)"
    and le0: "alloc_get al g0 \<le> int (length items0)"
    and ler: "\<forall>(g, items) \<in> set rest. alloc_get al g \<le> int (length items)" by auto
  have ler': "\<forall>(g, items) \<in> set rest. alloc_get ?al' g \<le> int (length items)"
  proof (clarify)
    fix g items assume m: "(g, items) \<in> set rest"
    then have "g \<noteq> g0" using g0 by force
    with ler m show "alloc_get ?al' g \<le> int (length items)"
      by (auto simp: alloc_get_update)
  qed
  show ?case
  proof (cases i)
    case 0
    consider "d \<le> 0" | "0 < d" "?avail \<le> 0" | "0 < d" "0 < ?avail" by linarith
    then show ?thesis
    proof cases
      case 1
      with Cons.prems(3) le0 show ?thesis by (simp add: 0 p headroom_def)
    next
      case 2
      with le0 g0 show ?thesis by (simp add: 0 p headroom_def fill_get_other)
    next
      case 3
      with g0 show ?thesis
        by (simp add: 0 p headroom_def fill_get_other Let_def alloc_get_update)
    qed
  next
    case (Suc j)
    with Cons.prems(4) have j: "j < length rest" by simp
    have gj: "fst (rest ! j) \<noteq> g0" using g0 j by (metis nth_mem image_eqI)
    have hj: "0 \<le> headroom al (take j rest)"
      using ler by (intro headroom_nonneg) (auto dest: in_set_takeD)
    have hk: "headroom ?al' (take j rest) = headroom al (take j rest)"
      using g0 by (intro headroom_update_other) (auto dest: in_set_takeD)
    have ht: "headroom al (take i (p # rest)) = ?avail + headroom al (take j rest)"
      by (simp add: Suc p headroom_Cons)
    consider "d \<le> 0" | "0 < d" "?avail \<le> 0" | "0 < d" "0 < ?avail" by linarith
    then show ?thesis
    proof cases
      case 1
      with Cons.prems(3) have "d = 0" by simp
      moreover have "alloc_get al (fst (rest ! j)) \<le> int (length (snd (rest ! j)))"
        using ler j by (metis (no_types, lifting) case_prodD nth_mem prod.collapse)
      ultimately show ?thesis using hj le0 by (simp add: Suc p headroom_Cons)
    next
      case 2
      with le0 have a0: "?avail = 0" by simp
      from 2 Cons.IH[OF dr ler Cons.prems(3) j] show ?thesis
        by (simp add: Suc p headroom_Cons a0)
    next
      case 3
      have d': "0 \<le> d - ?add" by simp
      have r: "fill_shortfall al d (p # rest) = fill_shortfall ?al' (d - ?add) rest"
        using 3 by (simp add: p Let_def)
      have e: "alloc_get ?al' (fst (rest ! j)) = alloc_get al (fst (rest ! j))"
        using gj by (simp add: alloc_get_update)
      have "max 0 (d - ?add - headroom al (take j rest)) = max 0 (d - (?avail + headroom al (take j rest)))"
        using hj 3 by (simp add: min_def max_def)
      with Cons.IH[OF dr ler' d' j] show ?thesis
        unfolding r by (simp add: Suc p headroom_Cons e hk)
    qed
  qed
qed

lemma initial_allocations_bounds:
  "distinct (map fst (group_by_genre bucket))"
  "map fst (initial_allocations target (group_by_genre bucket)) = map fst (group_by_genre bucket)"
  "\<forall>(g, items) \<in> set (group_by_genre bucket).
     1 \<le> alloc_get (initial_allocations target (group_by_genre bucket)) g \<and>
     alloc_get (initial_allocations target (group_by_genre bucket)) g \<le> int (length items)"
proof -
  define gs where "gs = group_by_genre bucket"
  define al0 where "al0 = initial_allocations target gs"
  define N where "N = sum_list (map (\<lambda>kv. int (length (snd kv))) gs)"
  have ok: "groups_ok bucket gs" unfolding gs_def by (rule groups_ok_group_by)
  then have dg: "distinct (map fst gs)" by (simp add: groups_ok_def)
  have al0: "al0 = map (quota target N) gs"
    unfolding al0_def N_def by (rule initial_allocations_eq[OF dg])
  have k0: "map fst al0 = map fst gs" by (simp add: al0 quota_def comp_def)
  have d0: "distinct (map fst al0)" using dg by (simp add: k0)
  have b: "\<forall>(g, items) \<in> set gs. 1 \<le> alloc_get al0 g \<and> alloc_get al0 g \<le> int (length items)"
  proof clarify
    fix g items assume m: "(g, items) \<in> set gs"
    then have "(g, snd (quota target N (g, items))) \<in> set al0"
      by (force simp: al0 quota_def)
    then have e: "alloc_get al0 g = snd (quota target N (g, items))" by (rule alloc_get_mem[OF d0])
    from groups_ok_mem[OF ok m] have "items \<noteq> []" by blast
    then have "1 \<le> int (length items)" by (cases items) auto
    then show "1 \<le> alloc_get al0 g \<and> alloc_get al0 g \<le> int (length items)"
      by (simp add: e quota_def)
  qed
  from dg show "distinct (map fst (group_by_genre bucket))" by (simp add: gs_def)
  from k0 show "map fst (initial_allocations target (group_by_genre bucket)) =
    map fst (group_by_genre bucket)" by (simp add: gs_def al0_def)
  from b show "\<forall>(g, items) \<in> set (group_by_genre bucket).
     1 \<le> alloc_get (initial_allocations target (group_by_genre bucket)) g \<and>
     alloc_get (initial_allocations target (group_by_genre bucket)) g \<le> int (length items)"
    by (simp add: gs_def al0_def)
qed

lemma sorted_reverse_descending: "sorted (rev (map key (sorted_reverse key xs)))"
  by (simp add: sorted_reverse_def rev_map[symmetric])

section \<open>Sampling and selection\<close>

lemma rng_sample_ok:
  assumes "generator_ok gen" "k \<le> length xs"
  shows "length (fst (rng_sample gen g xs k)) = k" and "set (fst (rng_sample gen g xs k)) \<subseteq> set xs"
proof -
  from assms have l: "length (fst (sample_indices gen g (length xs) k)) = k"
    and s: "set (fst (sample_indices gen g (length xs) k)) \<subseteq> {..<length xs}"
    unfolding generator_ok_def by blast+
  show "length (fst (rng_sample gen g xs k)) = k"
    using l by (simp add: rng_sample_def split_def Let_def)
  show "set (fst (rng_sample gen g xs k)) \<subseteq> set xs"
    using s by (auto simp: rng_sample_def split_def Let_def)
qed

lemma draw_facts:
  assumes "generator_ok gen"
  shows "(\<forall>(g, items) \<in> set groups. alloc_get al g \<le> int (length items)) \<Longrightarrow>
    int (length (fst (draw gen al (sampled, s) groups))) =
      int (length sampled) + sum_list (map (\<lambda>kv. max 0 (alloc_get al (fst kv))) groups) \<and>
    set (fst (draw gen al (sampled, s) groups)) \<subseteq> set sampled \<union> \<Union> (set ` snd ` set groups)"
proof (induction groups arbitrary: sampled s)
  case Nil
  then show ?case by simp
next
  case (Cons p groups)
  obtain genre items where p: "p = (genre, items)" by (cases p)
  from Cons.prems p have le: "alloc_get al genre \<le> int (length items)"
    and rest: "\<forall>(g, items) \<in> set groups. alloc_get al g \<le> int (length items)" by auto
  note ih = Cons.IH[OF rest]
  let ?c = "alloc_get al genre"
  consider (skip) "?c \<le> 0" | (all) "0 < ?c" "int (length items) \<le> ?c"
    | (some) "0 < ?c" "?c < int (length items)" by linarith
  then show ?case
  proof cases
    case skip
    with ih[of sampled s] show ?thesis by (auto simp: p)
  next
    case all
    with le have "?c = int (length items)" by simp
    with all ih[of "sampled @ items" s] show ?thesis by (auto simp: p)
  next
    case some
    obtain smp s' where r: "rng_sample gen s items (nat ?c) = (smp, s')"
      by (cases "rng_sample gen s items (nat ?c)")
    from some have k: "nat ?c \<le> length items" by simp
    from rng_sample_ok[OF assms k, of s] r have l: "length smp = nat ?c" and sub: "set smp \<subseteq> set items"
      by simp_all
    from some r have d: "draw gen al (sampled, s) (p # groups) = draw gen al (sampled @ smp, s') groups"
      by (simp add: p)
    from ih[of "sampled @ smp" s'] l sub some show ?thesis
      unfolding d by (auto simp: p)
  qed
qed

lemma stratified_sample_small:
  "int (length bucket) \<le> target \<Longrightarrow> stratified_sample gen g bucket target = (bucket, g)"
  by (simp add: stratified_sample_def)

lemma stratified_sample_big:
  assumes gen: "generator_ok gen" and big: "target < int (length bucket)"
  shows "int (length (fst (stratified_sample gen g bucket target))) =
           max target (int (length (group_by_genre bucket)))"
    and "set (fst (stratified_sample gen g bucket target)) \<subseteq> set bucket"
proof -
  let ?gs = "group_by_genre bucket"
  let ?plan = "allocation_plan bucket target"
  note f = allocation_plan_facts[OF big]
  have ok: "groups_ok bucket ?gs" by (rule groups_ok_group_by)
  then have dg: "distinct (map fst ?gs)" by (simp add: groups_ok_def)
  have dp: "distinct (map fst ?plan)" using dg f(2) by simp
  have le: "\<forall>(g, items) \<in> set ?gs. alloc_get ?plan g \<le> int (length items)"
    using f(3) by auto
  have "map (\<lambda>kv. max 0 (alloc_get ?plan (fst kv))) ?gs = map (\<lambda>kv. alloc_get ?plan (fst kv)) ?gs"
    using f(3) by (intro map_cong[OF refl]) force
  also have "\<dots> = map (alloc_get ?plan) (map fst ?plan)"
    by (simp add: f(2) comp_def)
  also have "\<dots> = map snd ?plan"
    using alloc_get_mem[OF dp] by (auto intro!: map_cong[OF refl] simp: comp_def)
  finally have e: "sum_list (map (\<lambda>kv. max 0 (alloc_get ?plan (fst kv))) ?gs) = sum_list (map snd ?plan)"
    by simp
  have s: "stratified_sample gen g bucket target = draw gen ?plan ([], g) ?gs"
    using big by (simp add: stratified_sample_def)
  from draw_facts[OF gen le, of "[]" g] show
    "int (length (fst (stratified_sample gen g bucket target))) =
           max target (int (length (group_by_genre bucket)))"
    unfolding s e f(1) by simp
  have "\<Union> (set ` snd ` set ?gs) \<subseteq> set bucket"
    using groups_ok_mem[OF ok] by fastforce
  with draw_facts[OF gen le, of "[]" g] show
    "set (fst (stratified_sample gen g bucket target)) \<subseteq> set bucket"
    unfolding s by auto
qed

lemma decade_picks_facts:
  assumes gen: "generator_ok gen" and t: "0 \<le> target"
  shows "length (py_prefix (fst (decade_picks gen g bucket target)) target) =
           min (nat target) (length bucket)"
    and "set (fst (decade_picks gen g bucket target)) \<subseteq> set bucket"
proof -
  have "length (py_prefix (fst (decade_picks gen g bucket target)) target) =
           min (nat target) (length bucket) \<and>
        set (fst (decade_picks gen g bucket target)) \<subseteq> set bucket"
  proof (cases "int (length bucket) \<le> target")
    case True
    have "filter (\<lambda>r. id_of r \<notin> set (map id_of bucket)) bucket = []"
      by (auto simp: filter_empty_conv)
    with True have "decade_picks gen g bucket target = (bucket, g)"
      by (simp add: decade_picks_def stratified_sample_small)
    with True t show ?thesis by (simp add: py_prefix_def)
  next
    case False
    then have big: "target < int (length bucket)" by simp
    obtain picks g1 where s: "stratified_sample gen g bucket target = (picks, g1)"
      by (cases "stratified_sample gen g bucket target")
    from stratified_sample_big[OF gen big, of g] s
    have l: "int (length picks) = max target (int (length (group_by_genre bucket)))"
      and sub: "set picks \<subseteq> set bucket" by simp_all
    from l have "\<not> int (length picks) < target" by simp
    with s have "decade_picks gen g bucket target = (picks, g1)"
      by (simp add: decade_picks_def)
    with l sub big t show ?thesis by (simp add: py_prefix_def)
  qed
  then show "length (py_prefix (fst (decade_picks gen g bucket target)) target) =
           min (nat target) (length bucket)"
    and "set (fst (decade_picks gen g bucket target)) \<subseteq> set bucket" by blast+
qed

lemma set_py_prefix: "set (py_prefix xs n) \<subseteq> set xs"
  by (auto simp: py_prefix_def dest: in_set_takeD)

lemma in_decade_bucket:
  "r \<in> set (decade_bucket records used dec) \<longleftrightarrow> r \<in> set records \<and> decade r = dec \<and> id_of r \<notin> used"
  by (auto simp: decade_bucket_def)

lemma select_decade_facts:
  assumes gen: "generator_ok gen" and t: "0 \<le> target"
  shows "\<exists>new picks g'.
     select_decade gen records (sel, used, g) (dec, target) =
       (sel @ new, used \<union> id_of ` set picks, g') \<and>
     set new \<subseteq> set picks \<and> set picks \<subseteq> set (decade_bucket records used dec) \<and>
     length new = min (nat target) (length (decade_bucket records used dec))"
proof (cases "decade_bucket records used dec = []")
  case True
  then have "select_decade gen records (sel, used, g) (dec, target) = (sel @ [], used \<union> id_of ` set [], g)"
    by (simp add: select_decade_def)
  with True show ?thesis by (intro exI[of _ "[]"] exI[of _ g]) simp
next
  case False
  let ?b = "decade_bucket records used dec"
  obtain picks g' where p: "decade_picks gen g ?b target = (picks, g')"
    by (cases "decade_picks gen g ?b target")
  from decade_picks_facts[OF gen t, of g ?b] p
  have l: "length (py_prefix picks target) = min (nat target) (length ?b)"
    and s: "set picks \<subseteq> set ?b" by simp_all
  from False p have "select_decade gen records (sel, used, g) (dec, target) =
       (sel @ py_prefix picks target, used \<union> id_of ` set picks, g')"
    by (simp add: select_decade_def Let_def)
  with l s set_py_prefix[of picks target] show ?thesis by blast
qed

lemma select_loop_Cons:
  "select_loop gen records (dt # ts) st = select_loop gen records ts (select_decade gen records st dt)"
  by (simp add: select_loop_def)

lemma select_loop_other_decade:
  assumes gen: "generator_ok gen"
  shows "d \<notin> fst ` set ts \<Longrightarrow> \<forall>(dec, t) \<in> set ts. 0 \<le> t \<Longrightarrow>
     filter (\<lambda>r. decade r = d) (fst (select_loop gen records ts st)) =
     filter (\<lambda>r. decade r = d) (fst st)"
proof (induction ts arbitrary: st)
  case Nil
  then show ?case by (simp add: select_loop_def)
next
  case (Cons dt ts)
  obtain dec t where dt: "dt = (dec, t)" by (cases dt)
  obtain sel used g where st: "st = (sel, used, g)" by (cases st)
  from Cons.prems dt have ne: "dec \<noteq> d" and t: "0 \<le> t" and d: "d \<notin> fst ` set ts"
    and r: "\<forall>(dec, t) \<in> set ts. 0 \<le> t" by auto
  from select_decade_facts[OF gen t, of records sel used g dec] obtain new picks g' where
    s: "select_decade gen records (sel, used, g) (dec, t) = (sel @ new, used \<union> id_of ` set picks, g')"
    and n: "set new \<subseteq> set picks" "set picks \<subseteq> set (decade_bucket records used dec)" by blast
  from n ne have "filter (\<lambda>r. decade r = d) new = []"
    by (auto simp: filter_empty_conv in_decade_bucket)
  with Cons.IH[OF d r, of "(sel @ new, used \<union> id_of ` set picks, g')"] show ?case
    by (simp add: select_loop_Cons dt st s)
qed

lemma select_loop_count:
  assumes gen: "generator_ok gen"
  shows "distinct (map fst ts) \<Longrightarrow> \<forall>(d, t) \<in> set ts. 0 \<le> t \<Longrightarrow> (dec, target) \<in> set ts \<Longrightarrow>
    filter (\<lambda>r. decade r = dec) (fst st) = [] \<Longrightarrow>
    int (length (filter (\<lambda>r. decade r = dec) (fst (select_loop gen records ts st)))) =
      min target (int (length (decade_bucket records
        (fst (snd (select_loop gen records (takeWhile (\<lambda>dt. fst dt \<noteq> dec) ts) st))) dec)))"
proof (induction ts arbitrary: st)
  case Nil
  then show ?case by simp
next
  case (Cons dt ts)
  obtain d1 t1 where dt: "dt = (d1, t1)" by (cases dt)
  obtain sel used g where st: "st = (sel, used, g)" by (cases st)
  from Cons.prems dt have t1: "0 \<le> t1" and d1: "d1 \<notin> fst ` set ts" and dts: "distinct (map fst ts)"
    and r: "\<forall>(d, t) \<in> set ts. 0 \<le> t" by auto
  from select_decade_facts[OF gen t1, of records sel used g d1] obtain new picks g' where
    s: "select_decade gen records (sel, used, g) (d1, t1) = (sel @ new, used \<union> id_of ` set picks, g')"
    and n: "set new \<subseteq> set picks" "set picks \<subseteq> set (decade_bucket records used d1)"
    and l: "length new = min (nat t1) (length (decade_bucket records used d1))" by blast
  show ?case
  proof (cases "d1 = dec")
    case True
    with Cons.prems(3) d1 dt have tt: "t1 = target" by force
    from n True have "filter (\<lambda>r. decade r = dec) new = new"
      by (auto simp: filter_id_conv in_decade_bucket)
    with Cons.prems(4) st have f: "filter (\<lambda>r. decade r = dec) (sel @ new) = new" by simp
    from True d1 have "dec \<notin> fst ` set ts" by simp
    from select_loop_other_decade[OF gen this r, of records "(sel @ new, used \<union> id_of ` set picks, g')"]
    have "filter (\<lambda>r. decade r = dec) (fst (select_loop gen records (dt # ts) st)) = new"
      unfolding select_loop_Cons dt st s fst_conv f by simp
    moreover have "takeWhile (\<lambda>dt. fst dt \<noteq> dec) (dt # ts) = []" using True dt by simp
    ultimately show ?thesis
      using l t1 tt True by (simp add: select_loop_def st)
  next
    case False
    with Cons.prems(3) dt have m: "(dec, target) \<in> set ts" by auto
    from n False have "filter (\<lambda>r. decade r = dec) new = []"
      by (auto simp: filter_empty_conv in_decade_bucket)
    with Cons.prems(4) st have f: "filter (\<lambda>r. decade r = dec) (fst (sel @ new, used \<union> id_of ` set picks, g')) = []"
      by simp
    have tw: "takeWhile (\<lambda>dt. fst dt \<noteq> dec) (dt # ts) = dt # takeWhile (\<lambda>dt. fst dt \<noteq> dec) ts"
      using False dt by simp
    from Cons.IH[OF dts r m f] show ?thesis
      unfolding tw select_loop_Cons by (simp add: dt st s)
  qed
qed

lemma DECADE_TARGETS_ok:
  "distinct (map fst DECADE_TARGETS)" "\<forall>(d, t) \<in> set DECADE_TARGETS. 0 \<le> t"
  by (simp_all add: DECADE_TARGETS_def)

lemma select_spotify_subset_fst:
  "fst (select_spotify_subset gen g records) = fst (select_loop gen records DECADE_TARGETS ([], {}, g))"
  by (simp add: select_spotify_subset_def split_def Let_def)

lemma select_count:
  assumes "generator_ok gen" and "(dec, target) \<in> set DECADE_TARGETS"
  shows "int (length (filter (\<lambda>r. decade r = dec) (fst (select_spotify_subset gen g records)))) =
           min target (int (length (decade_bucket records (used_before gen g records dec) dec)))"
  unfolding select_spotify_subset_fst used_before_def
  by (rule select_loop_count[OF assms(1) DECADE_TARGETS_ok assms(2)]) simp

lemma partitioned_step:
  assumes gen: "generator_ok gen" and t: "0 \<le> snd dt" and p: "partitioned st"
  shows "partitioned (select_decade gen records st dt)"
proof -
  obtain dec target where dt: "dt = (dec, target)" by (cases dt)
  obtain sel used g where st: "st = (sel, used, g)" by (cases st)
  from t dt have t': "0 \<le> target" by simp
  from select_decade_facts[OF gen t', of records sel used g dec] obtain new picks g' where
    s: "select_decade gen records (sel, used, g) (dec, target) = (sel @ new, used \<union> id_of ` set picks, g')"
    and n: "set new \<subseteq> set picks" "set picks \<subseteq> set (decade_bucket records used dec)" by blast
  from p st have u: "id_of ` set sel \<subseteq> used"
    and o: "\<And>r1 r2. r1 \<in> set sel \<Longrightarrow> r2 \<in> set sel \<Longrightarrow> decade r1 \<noteq> decade r2 \<Longrightarrow> id_of r1 \<noteq> id_of r2"
    unfolding partitioned_def by auto
  have nd: "decade r = dec \<and> id_of r \<notin> used" if "r \<in> set new" for r
    using that n by (auto simp: in_decade_bucket)
  have "id_of ` set (sel @ new) \<subseteq> used \<union> id_of ` set picks" using u n by auto
  moreover have "id_of r1 \<noteq> id_of r2"
    if a: "r1 \<in> set (sel @ new)" "r2 \<in> set (sel @ new)" and ne: "decade r1 \<noteq> decade r2" for r1 r2
  proof -
    consider "r1 \<in> set sel" "r2 \<in> set sel" | "r1 \<in> set sel" "r2 \<in> set new"
      | "r1 \<in> set new" "r2 \<in> set sel" | "r1 \<in> set new" "r2 \<in> set new"
      using a by auto
    then show ?thesis
    proof cases
      case 1 with o ne show ?thesis by blast
    next
      case 2 with u nd[of r2] show ?thesis by force
    next
      case 3 with u nd[of r1] show ?thesis by force
    next
      case 4 with nd ne show ?thesis by blast
    qed
  qed
  ultimately show ?thesis unfolding dt st s partitioned_def by simp
qed

lemma partitioned_loop:
  assumes gen: "generator_ok gen"
  shows "\<forall>(d, t) \<in> set ts. 0 \<le> t \<Longrightarrow> partitioned st \<Longrightarrow> partitioned (select_loop gen records ts st)"
proof (induction ts arbitrary: st)
  case Nil
  then show ?case by (simp add: select_loop_def)
next
  case (Cons dt ts)
  then have "0 \<le> snd dt" by auto
  from partitioned_step[OF gen this Cons.prems(2)] Cons show ?case
    by (simp add: select_loop_Cons)
qed

lemma select_partition:
  assumes "generator_ok gen" "d1 \<noteq> d2"
  shows "id_of ` set (filter (\<lambda>r. decade r = d1) (fst (select_spotify_subset gen g records))) \<inter>
         id_of ` set (filter (\<lambda>r. decade r = d2) (fst (select_spotify_subset gen g records))) = {}"
proof -
  have "partitioned (select_loop gen records DECADE_TARGETS ([], {}, g))"
    by (rule partitioned_loop[OF assms(1) DECADE_TARGETS_ok(2)]) (simp add: partitioned_def)
  with assms(2) show ?thesis
    unfolding select_spotify_subset_fst partitioned_def by force
qed

section \<open>Entries and the pipeline\<close>

lemma spotify_row_to_entry_Inr:
  assumes "spotify_row_to_entry py fl rec = Inr e"
  shows "\<exists>pop. popularity_of py (track_popularity (row rec)) = Some pop \<and> popularity e = pop \<and>
           niche e = (case pop of None \<Rightarrow> False | Some p \<Rightarrow> p < 45)"
    and "title e = track_name (row rec)" and "artist e = track_artist (row rec)"
    and "releaseYear e = release_year rec" and "entry_id e = ''spotify:'' @ track_id (row rec)"
  using assms
  by (auto simp: spotify_row_to_entry_def Let_def split: Option.bind_splits option.splits)

lemma spotify_row_to_entry_Inl:
  "spotify_row_to_entry py fl rec = Inl err \<Longrightarrow> err = ValueError"
  by (auto simp: spotify_row_to_entry_def Let_def split: option.splits)

lemma spotify_row_to_entry_total:
  assumes "floats_parse fl (row rec)" "popularity_of py (track_popularity (row rec)) \<noteq> None"
  shows "\<exists>e. spotify_row_to_entry py fl rec = Inr e"
  using assms
  by (auto simp: spotify_row_to_entry_def floats_parse_def Let_def)

lemma popularity_of_empty: "popularity_of py [] = Some None"
  by (simp add: popularity_of_def)

lemma popularity_of_nonempty:
  "s \<noteq> [] \<Longrightarrow> popularity_of py s = Some pop \<Longrightarrow> \<exists>p. int_of_str py s = Some p \<and> pop = Some p"
  by (auto simp: popularity_of_def)

lemma map_result_Inr:
  "map_result f xs = Inr ys \<Longrightarrow> list_all2 (\<lambda>x y. f x = Inr y) xs ys"
  by (induction xs arbitrary: ys) (auto split: sum.splits)

lemma map_result_Inl:
  "map_result f xs = Inl e \<Longrightarrow> \<exists>x \<in> set xs. f x = Inl e"
  by (induction xs) (auto split: sum.splits)

lemma merge_manual_cases:
  "merge_manual py (m, s, K) e =
     (if entry_key py e \<in> K then (m, s + 1, K) else (m @ [e], s, insert (entry_key py e) K))"
  by (simp add: merge_manual_def)

lemma merge_manual_fold:
  "foldl (merge_manual py) (m0, s0, K0) es = (kept, skipped, K) \<Longrightarrow>
     \<exists>new. kept = m0 @ new \<and> K = K0 \<union> set (map (entry_key py) new) \<and>
       distinct (map (entry_key py) new) \<and> set (map (entry_key py) new) \<inter> K0 = {} \<and>
       length new + skipped = length es + s0 \<and> set new \<subseteq> set es \<and>
       (\<forall>e \<in> set es. entry_key py e \<in> K)"
proof (induction es arbitrary: m0 s0 K0)
  case Nil
  then show ?case by simp
next
  case (Cons e es)
  show ?case
  proof (cases "entry_key py e \<in> K0")
    case True
    with Cons.prems have "foldl (merge_manual py) (m0, s0 + 1, K0) es = (kept, skipped, K)"
      by (simp add: merge_manual_cases)
    from Cons.IH[OF this] True show ?thesis by auto
  next
    case False
    with Cons.prems have
      "foldl (merge_manual py) (m0 @ [e], s0, insert (entry_key py e) K0) es = (kept, skipped, K)"
      by (simp add: merge_manual_cases)
    from Cons.IH[OF this] obtain new where
      n: "kept = (m0 @ [e]) @ new" "K = insert (entry_key py e) K0 \<union> set (map (entry_key py) new)"
        "distinct (map (entry_key py) new)" "set (map (entry_key py) new) \<inter> insert (entry_key py e) K0 = {}"
        "length new + skipped = length es + s0" "set new \<subseteq> set es"
        "\<forall>e \<in> set es. entry_key py e \<in> K" by blast
    have "kept = m0 @ (e # new)" using n(1) by simp
    moreover have "K = K0 \<union> set (map (entry_key py) (e # new))" using n(2) by auto
    moreover have "distinct (map (entry_key py) (e # new))" using n(3,4) by auto
    moreover have "set (map (entry_key py) (e # new)) \<inter> K0 = {}" using n(4) False by auto
    moreover have "length (e # new) + skipped = length (e # es) + s0" using n(5) by simp
    moreover have "set (e # new) \<subseteq> set (e # es)" using n(6) by auto
    moreover have "\<forall>x \<in> set (e # es). entry_key py x \<in> K" using n(2,7) by auto
    ultimately show ?thesis by blast
  qed
qed

lemma rng_shuffle_ok:
  assumes "generator_ok gen"
  shows "length (fst (rng_shuffle gen g xs)) = length xs"
    and "set (fst (rng_shuffle gen g xs)) \<subseteq> set xs"
proof -
  from assms have l: "length (fst (shuffle_indices gen g (length xs))) = length xs"
    and s: "set (fst (shuffle_indices gen g (length xs))) = {..<length xs}"
    unfolding generator_ok_def by blast+
  show "length (fst (rng_shuffle gen g xs)) = length xs"
    using l by (simp add: rng_shuffle_def split_def Let_def)
  show "set (fst (rng_shuffle gen g xs)) \<subseteq> set xs"
  proof -
    from s have "set (fst (shuffle_indices gen g (length xs))) \<subseteq> {..<length xs}" by simp
    then show ?thesis by (auto simp: rng_shuffle_def split_def Let_def)
  qed
qed

lemma entry_key_of_row:
  "spotify_row_to_entry py fl r = Inr e \<Longrightarrow> entry_key py e = row_key py r"
  using spotify_row_to_entry_Inr(2,3)[of py fl r e] by (simp add: entry_key_def row_key_def)

lemma backfill_facts:
  assumes gen: "generator_ok gen" and b: "backfill py gen fl g records K n = (Inr extra, g2)"
  shows "length extra = min (3000 - n) (length (filter (\<lambda>r. row_key py r \<notin> K) records))"
    and "\<forall>e \<in> set extra. entry_key py e \<notin> K"
proof -
  let ?rem = "filter (\<lambda>r. row_key py r \<notin> K) records"
  have "length extra = min (3000 - n) (length ?rem) \<and> (\<forall>e \<in> set extra. entry_key py e \<notin> K)"
  proof (cases "int n < 3000")
    case False
    with b have "extra = []" by (simp add: backfill_def)
    with False show ?thesis by simp
  next
    case True
    obtain sh g' where sh: "rng_shuffle gen g ?rem = (sh, g')" by (cases "rng_shuffle gen g ?rem")
    from rng_shuffle_ok[OF gen, of g ?rem] sh have l: "length sh = length ?rem"
      and s: "set sh \<subseteq> set ?rem" by simp_all
    from True have px: "py_prefix sh (3000 - int n) = take (3000 - n) sh"
      by (simp add: py_prefix_def nat_diff_distrib')
    from b True sh have m: "map_result (spotify_row_to_entry py fl) (take (3000 - n) sh) = Inr extra"
      by (simp add: backfill_def Let_def px)
    note a = map_result_Inr[OF m]
    from list_all2_lengthD[OF a] l have 1: "length extra = min (3000 - n) (length ?rem)"
      by simp
    have 2: "entry_key py e \<notin> K" if "e \<in> set extra" for e
    proof -
      from that obtain i where i: "i < length extra" "extra ! i = e"
        by (auto simp: in_set_conv_nth)
      from list_all2_lengthD[OF a] i have "i < length (take (3000 - n) sh)" by simp
      from list_all2_nthD[OF a this] i
      have r: "spotify_row_to_entry py fl (take (3000 - n) sh ! i) = Inr e" by simp
      from i list_all2_lengthD[OF a] have "take (3000 - n) sh ! i \<in> set (take (3000 - n) sh)"
        by (intro nth_mem) simp
      then have "take (3000 - n) sh ! i \<in> set ?rem" using s by (auto dest: in_set_takeD)
      then have "row_key py (take (3000 - n) sh ! i) \<notin> K" by simp
      with entry_key_of_row[OF r] show ?thesis by simp
    qed
    from 1 2 show ?thesis by blast
  qed
  then show "length extra = min (3000 - n) (length ?rem)" and "\<forall>e \<in> set extra. entry_key py e \<notin> K"
    by blast+
qed

lemma make_payload_fields:
  "songs (make_payload t s c) = c"
  "generatedAt (metadata (make_payload t s c)) = t @ ''Z''"
  "recordCount (metadata (make_payload t s c)) = length c"
  "last (meta_notes (metadata (make_payload t s c))) = ''Manual duplicates skipped: '' @ str_nat s"
  by (simp_all add: make_payload_def)

lemma without_timestamp_payload:
  "without_timestamp (Inr (make_payload t1 s c)) = without_timestamp (Inr (make_payload t2 s c))"
  by (simp add: without_timestamp_def make_payload_def)

lemma main_success_structure:
  fixes p :: "'f payload"
  assumes "main py gen fl g utcnow (Some rows) (Some manual) = (Inr p, g')"
  shows "\<exists>recs primary curated kept skipped K extra.
     load_spotify_records py rows = Inr recs \<and>
     map_result (spotify_row_to_entry py fl) (fst (select_spotify_subset gen g recs)) =
       Inr primary \<and>
     map_result (manual_entry py) manual = Inr curated \<and>
     foldl (merge_manual py) ([], 0, set (map (entry_key py) primary)) curated =
       (kept, skipped, K) \<and>
     backfill py gen fl (snd (select_spotify_subset gen g recs)) recs K
       (length (primary @ kept)) = (Inr extra, g') \<and>
     p = make_payload utcnow skipped
           (sort_key (\<lambda>item. (releaseYear item, title item)) (primary @ kept @ extra))"
proof -
  from assms obtain recs where lo: "load_spotify_records py rows = Inr recs"
    by (cases "load_spotify_records py rows") (auto simp: main_def)
  obtain sel g1 where s: "select_spotify_subset gen g recs = (sel, g1)"
    by (cases "select_spotify_subset gen g recs")
  from assms obtain primary where pr: "map_result (spotify_row_to_entry py fl) sel = Inr primary"
    by (cases "map_result (spotify_row_to_entry py fl) sel") (auto simp: main_def lo s)
  from assms obtain curated :: "'f entry list"
    where cu: "map_result (manual_entry py) manual = Inr curated"
    by (cases "map_result (manual_entry py) manual :: error + 'f entry list")
      (auto simp: main_def lo s pr load_manual_french_songs_def)
  obtain kept skipped K where
    f: "foldl (merge_manual py) ([], 0, entry_key py ` set primary) curated = (kept, skipped, K)"
    by (cases "foldl (merge_manual py) ([], 0, entry_key py ` set primary) curated")
  obtain res g2 where
    b: "backfill py gen fl g1 recs K (length primary + length kept) = (res, g2)"
    by (cases "backfill py gen fl g1 recs K (length primary + length kept)")
  from assms obtain extra where e: "res = Inr extra"
    by (cases res) (auto simp: main_def lo s pr cu f b load_manual_french_songs_def)
  from assms have "g' = g2" and "p = make_payload utcnow skipped
           (sort_key (\<lambda>item. (releaseYear item, title item)) (primary @ kept @ extra))"
    by (auto simp: main_def lo s pr cu f b e load_manual_french_songs_def)
  with lo s pr cu f b e show ?thesis
    by (intro exI[of _ recs] exI[of _ primary] exI[of _ curated] exI[of _ kept]
        exI[of _ skipped] exI[of _ K] exI[of _ extra]) simp
qed

lemma main_timestamp_only:
  fixes fl :: "'f float_ops"
  shows "without_timestamp (fst (main py gen fl g t1 raw manual)) =
     without_timestamp (fst (main py gen fl g t2 raw manual)) \<and>
   snd (main py gen fl g t1 raw manual) = snd (main py gen fl g t2 raw manual)"
proof (cases raw)
  case None
  then show ?thesis by (simp add: main_def)
next
  case (Some rows)
  show ?thesis
  proof (cases "load_spotify_records py rows")
    case (Inl e)
    then show ?thesis by (simp add: main_def Some)
  next
    case lo: (Inr recs)
    obtain sel g1 where s: "select_spotify_subset gen g recs = (sel, g1)"
      by (cases "select_spotify_subset gen g recs")
    show ?thesis
    proof (cases "map_result (spotify_row_to_entry py fl) sel")
      case (Inl e)
      then show ?thesis by (simp add: main_def Some lo s)
    next
      case pr: (Inr primary)
      show ?thesis
      proof (cases "load_manual_french_songs py manual :: error + 'f entry list")
        case (Inl e)
        then show ?thesis by (simp add: main_def Some lo s pr)
      next
        case cu: (Inr curated)
        obtain kept skipped K where
          f: "foldl (merge_manual py) ([], 0, entry_key py ` set primary) curated =
                (kept, skipped, K)"
          by (cases "foldl (merge_manual py) ([], 0, entry_key py ` set primary) curated")
        obtain res g2 where
          b: "backfill py gen fl g1 recs K (length primary + length kept) = (res, g2)"
          by (cases "backfill py gen fl g1 recs K (length primary + length kept)")
        show ?thesis
          by (cases res) (simp_all add: main_def Some lo s pr cu f b without_timestamp_payload)
      qed
    qed
  qed
qed

lemma main_generated_at:
  fixes p :: "'f payload"
  assumes "fst (main py gen fl g t raw manual) = Inr p"
  shows "generatedAt (metadata p) = t @ ''Z''"
proof (cases raw)
  case None
  with assms show ?thesis by (simp add: main_def)
next
  case (Some rows)
  show ?thesis
  proof (cases "load_spotify_records py rows")
    case (Inl e)
    with assms show ?thesis by (simp add: main_def Some)
  next
    case lo: (Inr recs)
    obtain sel g1 where s: "select_spotify_subset gen g recs = (sel, g1)"
      by (cases "select_spotify_subset gen g recs")
    show ?thesis
    proof (cases "map_result (spotify_row_to_entry py fl) sel")
      case (Inl e)
      with assms show ?thesis by (simp add: main_def Some lo s)
    next
      case pr: (Inr primary)
      show ?thesis
      proof (cases "load_manual_french_songs py manual :: error + 'f entry list")
        case (Inl e)
        with assms show ?thesis by (simp add: main_def Some lo s pr)
      next
        case cu: (Inr curated)
        obtain kept skipped K where
          f: "foldl (merge_manual py) ([], 0, entry_key py ` set primary) curated =
                (kept, skipped, K)"
          by (cases "foldl (merge_manual py) ([], 0, entry_key py ` set primary) curated")
        obtain res g2 where
          b: "backfill py gen fl g1 recs K (length primary + length kept) = (res, g2)"
          by (cases "backfill py gen fl g1 recs K (length primary + length kept)")
        from assms show ?thesis
          by (cases res) (auto simp: main_def Some lo s pr cu f b make_payload_fields)
      qed
    qed
  qed
qed

lemma main_raw_missing:
  "main py gen fl g utcnow None manual = (Inl SystemExit, g)"
  by (simp add: main_def)

lemma main_manual_missing:
  fixes fl :: "'f float_ops"
  shows "(main py gen fl g utcnow (Some rows) None :: (error + 'f payload) \<times> 'g) =
     (case load_spotify_records py rows of
        Inl e \<Rightarrow> (Inl e, g)
      | Inr recs \<Rightarrow>
          (case map_result (spotify_row_to_entry py fl) (fst (select_spotify_subset gen g recs)) of
             Inl e \<Rightarrow> (Inl e, snd (select_spotify_subset gen g recs))
           | Inr primary \<Rightarrow> (Inl FileNotFoundError, snd (select_spotify_subset gen g recs))))"
  by (simp add: main_def load_manual_french_songs_def split_def Let_def split: sum.splits)

lemma main_load_error:
  "load_spotify_records py rows = Inl e \<Longrightarrow> main py gen fl g utcnow (Some rows) manual = (Inl e, g)"
  by (simp add: main_def)

text \<open>The order in which sets are iterated reaches nothing: the only sets iterated are
  the tags, which are sorted.\<close>

lemma sorted_set_iter:
  assumes "set_iter_ok py"
  shows "sort (set_iter py xs) = sort (remdups xs)"
proof (rule sorted_distinct_set_unique)
  from assms have d: "distinct (set_iter py xs)" and s: "set (set_iter py xs) = set xs"
    unfolding set_iter_ok_def by blast+
  show "sorted (sort (set_iter py xs))" "sorted (sort (remdups xs))" by simp_all
  show "distinct (sort (set_iter py xs))" using d by simp
  show "distinct (sort (remdups xs))" by simp
  show "set (sort (set_iter py xs)) = set (sort (remdups xs))" using s by simp
qed

lemma parse_year_set_iter: "parse_year (py\<lparr>set_iter := f\<rparr>) = parse_year py"
  by (simp add: parse_year_def fun_eq_iff cong: option.case_cong if_cong)

lemma is_soundtrack_set_iter: "is_soundtrack (py\<lparr>set_iter := f\<rparr>) = is_soundtrack py"
  by (simp add: is_soundtrack_def fun_eq_iff)

lemma detect_language_set_iter: "detect_language (py\<lparr>set_iter := f\<rparr>) = detect_language py"
  by (simp add: detect_language_def fun_eq_iff)

lemma load_row_set_iter: "load_row (py\<lparr>set_iter := f\<rparr>) = load_row py"
  by (simp add: load_row_def fun_eq_iff parse_year_set_iter is_soundtrack_set_iter
      cong: option.case_cong sum.case_cong if_cong)

lemma load_loop_set_iter: "load_loop (py\<lparr>set_iter := f\<rparr>) st rows = load_loop py st rows"
  by (induction rows arbitrary: st) (simp_all add: load_row_set_iter cong: sum.case_cong)

lemma load_spotify_records_set_iter:
  "load_spotify_records (py\<lparr>set_iter := f\<rparr>) = load_spotify_records py"
  by (simp add: load_spotify_records_def fun_eq_iff load_loop_set_iter cong: sum.case_cong)

lemma popularity_of_set_iter: "popularity_of (py\<lparr>set_iter := f\<rparr>) = popularity_of py"
  by (simp add: popularity_of_def fun_eq_iff)

lemma entry_key_set_iter: "entry_key (py\<lparr>set_iter := f\<rparr>) = entry_key py"
  by (simp add: entry_key_def norm_key_def fun_eq_iff)

lemma row_key_set_iter: "row_key (py\<lparr>set_iter := f\<rparr>) = row_key py"
  by (simp add: row_key_def norm_key_def fun_eq_iff)

lemma merge_manual_set_iter: "merge_manual (py\<lparr>set_iter := f\<rparr>) = merge_manual py"
  by (simp add: merge_manual_def fun_eq_iff entry_key_set_iter)

lemma spotify_row_to_entry_set_iter:
  assumes "set_iter_ok py" "set_iter_ok (py\<lparr>set_iter := f\<rparr>)"
  shows "spotify_row_to_entry (py\<lparr>set_iter := f\<rparr>) = spotify_row_to_entry py"
proof -
  have "sort (set_iter (py\<lparr>set_iter := f\<rparr>) xs) = sort (set_iter py xs)" for xs
    using sorted_set_iter[OF assms(1), of xs] sorted_set_iter[OF assms(2), of xs] by simp
  then have "sort (f xs) = sort (set_iter py xs)" for xs by simp
  then show ?thesis
    by (simp add: spotify_row_to_entry_def fun_eq_iff detect_language_set_iter
        popularity_of_set_iter cong: option.case_cong Option.bind_cong)
qed

lemma manual_entry_set_iter:
  assumes "set_iter_ok py" "set_iter_ok (py\<lparr>set_iter := f\<rparr>)"
  shows "manual_entry (py\<lparr>set_iter := f\<rparr>) = manual_entry py"
proof -
  have "sort (set_iter (py\<lparr>set_iter := f\<rparr>) xs) = sort (set_iter py xs)" for xs
    using sorted_set_iter[OF assms(1), of xs] sorted_set_iter[OF assms(2), of xs] by simp
  then have "sort (f xs) = sort (set_iter py xs)" for xs by simp
  then show ?thesis
    by (simp add: manual_entry_def fun_eq_iff cong: option.case_cong)
qed

lemma backfill_set_iter:
  assumes "set_iter_ok py" "set_iter_ok (py\<lparr>set_iter := f\<rparr>)"
  shows "backfill (py\<lparr>set_iter := f\<rparr>) = backfill py"
  by (simp add: backfill_def fun_eq_iff row_key_set_iter spotify_row_to_entry_set_iter[OF assms]
      cong: if_cong)

lemma main_set_iter:
  assumes "set_iter_ok py" "set_iter_ok (py\<lparr>set_iter := f\<rparr>)"
  shows "main (py\<lparr>set_iter := f\<rparr>) = main py"
  by (simp add: main_def fun_eq_iff load_spotify_records_set_iter entry_key_set_iter
      merge_manual_set_iter load_manual_french_songs_def
      spotify_row_to_entry_set_iter[OF assms] manual_entry_set_iter[OF assms]
      backfill_set_iter[OF assms] split_def
      cong: option.case_cong sum.case_cong)

section \<open>Runs on examples\<close>

lemma counter_generator_ok: "generator_ok counter_generator"
  unfolding generator_ok_def counter_generator_def
  by (auto dest!: in_set_takeD)


lemma round_21_15: "py_round_div 21 15 = 1"
  by (simp add: py_round_div_def)


lemmas plan_simps = example_bucket_def example_record_def example_row_def genre_of_def id_of_def
  allocation_plan_def group_by_genre_def group_append_def initial_allocations_def
  initial_allocation_def alloc_get_def reconcile_def sorted_reverse_def shortfall_key_def

lemma genres_card: "length (group_by_genre bucket) = card (genre_of ` set bucket)"
proof -
  have ok: "groups_ok bucket (group_by_genre bucket)" by (rule groups_ok_group_by)
  then have "distinct (map fst (group_by_genre bucket))"
    and "fst ` set (group_by_genre bucket) = genre_of ` set bucket"
    by (simp_all add: groups_ok_def)
  then show ?thesis using distinct_card[of "map fst (group_by_genre bucket)"] by simp
qed

lemmas select_simps = select_spotify_subset_def select_loop_def DECADE_TARGETS_def
  select_decade_def decade_bucket_def decade_picks_def stratified_sample_def py_prefix_def
  example_record_def example_row_def id_of_def used_before_def example_records_def

lemma example_selection:
  "map id_of (fst (select_spotify_subset counter_generator 0 example_records)) = [''a'', ''b'']"
  by (simp add: select_simps)

lemma example_shortfall_initial:
  "initial_allocations 7 (group_by_genre example_shortfall_bucket) =
     [(''a'', 1), (''b'', 1), (''c'', 1), (''d'', 1), (''e'', 1)]"
  by (simp add: example_shortfall_bucket_def example_bucket_def example_record_def
      example_row_def genre_of_def group_by_genre_def group_append_def initial_allocations_def
      initial_allocation_def alloc_get_def round_21_15)

lemma example_shortfall_order:
  "map fst (sorted_reverse
     (shortfall_key [(''a'', 1), (''b'', 1), (''c'', 1), (''d'', 1), (''e'', 1)])
     (group_by_genre example_shortfall_bucket)) = [''a'', ''b'', ''c'', ''d'', ''e''] \<and>
   map (length \<circ> snd) (sorted_reverse
     (shortfall_key [(''a'', 1), (''b'', 1), (''c'', 1), (''d'', 1), (''e'', 1)])
     (group_by_genre example_shortfall_bucket)) = [3, 3, 3, 3, 3]"
  by (simp add: example_shortfall_bucket_def example_bucket_def example_record_def
      example_row_def genre_of_def group_by_genre_def group_append_def 
      alloc_get_def sorted_reverse_def shortfall_key_def)

lemma example_shortfall_plan:
  "allocation_plan example_shortfall_bucket 7 =
     [(''a'', 3), (''b'', 1), (''c'', 1), (''d'', 1), (''e'', 1)]"
  by (simp add: example_shortfall_bucket_def plan_simps round_21_15)

lemma example_shortfall_rounds:
  "spec_unit_rounds 2 [(''a'', 1), (''b'', 1), (''c'', 1), (''d'', 1), (''e'', 1)] 2
     (sorted_reverse
       (shortfall_key [(''a'', 1), (''b'', 1), (''c'', 1), (''d'', 1), (''e'', 1)])
       (group_by_genre example_shortfall_bucket)) =
     [(''a'', 2), (''b'', 2), (''c'', 1), (''d'', 1), (''e'', 1)]"
  by (simp add: example_shortfall_bucket_def example_bucket_def example_record_def
      example_row_def genre_of_def group_by_genre_def group_append_def 
      alloc_get_def sorted_reverse_def shortfall_key_def numeral_2_eq_2)

lemma select_loop_no_rows:
  "\<forall>dt \<in> set ts. decade_bucket records (fst (snd st)) (fst dt) = [] \<Longrightarrow>
   select_loop gen records ts st = st"
proof (induction ts)
  case Nil
  then show ?case by (simp add: select_loop_def)
next
  case (Cons dt ts)
  obtain sel used g where st: "st = (sel, used, g)" by (cases st)
  obtain d t where dt: "dt = (d, t)" by (cases dt)
  from Cons.prems st dt have "decade_bucket records used d = []" by simp
  then have "select_decade gen records st dt = st"
    by (simp add: select_decade_def st dt)
  with Cons show ?case by (simp add: select_loop_Cons)
qed

lemma example_record_simps:
  "genre_of (example_record tid genre year) = genre"
  "id_of (example_record tid genre year) = tid"
  "decade (example_record tid genre year) = year div 10 * 10"
  by (simp_all add: example_record_def example_row_def genre_of_def id_of_def)

lemma example_full_length: "length example_full_decade = 103"
proof -
  have "length example_full_ids = 103" by code_simp
  then show ?thesis by (simp add: example_full_decade_def)
qed

lemma example_full_genres: "length (group_by_genre example_full_decade) = 101"
proof -
  have "map genre_of example_full_decade =
      map (\<lambda>tid. if hd tid = CHR ''p'' then ''pop'' else tid) example_full_ids"
    by (simp add: example_full_decade_def example_record_simps o_def)
  then have "genre_of ` set example_full_decade =
      set (map (\<lambda>tid. if hd tid = CHR ''p'' then ''pop'' else tid) example_full_ids)"
    by (metis set_map)
  moreover have "card (set (map (\<lambda>tid. if hd tid = CHR ''p'' then ''pop'' else tid)
      example_full_ids)) = 101"
    by code_simp
  ultimately show ?thesis by (simp add: genres_card)
qed

lemma example_full_bucket:
  "decade_bucket example_full_decade (used_before counter_generator 0 example_full_decade 2020)
     2020 = example_full_decade"
proof -
  have d: "decade r = 2020" if "r \<in> set example_full_decade" for r
    using that by (auto simp: example_full_decade_def example_record_simps)
  have e: "decade_bucket example_full_decade used dec = []" if "dec \<noteq> 2020" for used dec
    using that d by (auto simp: decade_bucket_def filter_empty_conv)
  have "select_loop counter_generator example_full_decade
      (takeWhile (\<lambda>dt. fst dt \<noteq> 2020) DECADE_TARGETS) ([], {}, 0) = ([], {}, 0)"
    by (rule select_loop_no_rows) (auto simp: DECADE_TARGETS_def e)
  then have "used_before counter_generator 0 example_full_decade 2020 = {}"
    by (simp add: used_before_def)
  with d show ?thesis by (simp add: decade_bucket_def filter_id_conv)
qed

lemma example_full_sample:
  "length (fst (stratified_sample counter_generator 0 example_full_decade 100)) = 101"
proof -
  have "(100::int) < int (length example_full_decade)" by (simp add: example_full_length)
  from stratified_sample_big(1)[OF counter_generator_ok this, of 0]
  show ?thesis by (simp add: example_full_genres)
qed

lemma example_python_ok:
  "set_iter_ok example_python" "set_iter_ok (example_python\<lparr>set_iter := remdups\<rparr>)"
  by (simp_all add: set_iter_ok_def example_python_def)

section \<open>The claims\<close>




text \<open>
  C2 (as amended). Two runs on the same input files, from the same state of the random
  source, at any two readings of the clock and with any two orders of iteration of
  sets, fail alike or write payloads that differ in nothing but the \<open>generatedAt\<close>
  timestamp of the metadata, which is the reading of the clock; they leave the random
  source in the same state. The output file is \<open>json.dump\<close> of the payload.
\<close>

theorem rerun_differs_in_timestamp_only:
  fixes fl :: "'f float_ops"
  assumes "set_iter_ok py" and "set_iter_ok (py\<lparr>set_iter := order\<rparr>)"
  shows "without_timestamp (fst (main (py\<lparr>set_iter := order\<rparr>) gen fl g t2 raw manual)) =
           without_timestamp (fst (main py gen fl g t1 raw manual)) \<and>
         snd (main (py\<lparr>set_iter := order\<rparr>) gen fl g t2 raw manual) =
           snd (main py gen fl g t1 raw manual) \<and>
         (\<forall>p. fst (main py gen fl g t1 raw manual) = Inr p \<longrightarrow>
            generatedAt (metadata p) = t1 @ ''Z'')"
proof -
  have "main (py\<lparr>set_iter := order\<rparr>) gen fl g t2 raw manual = main py gen fl g t2 raw manual"
    by (simp add: main_set_iter[OF assms])
  with main_timestamp_only[of py gen fl g t2 raw manual t1]
    main_generated_at[of py gen fl g t1 raw manual]
  show ?thesis by simp
qed

text \<open>
  Two runs on the example files, a second apart, the first iterating its sets in the
  reverse of the order of the second: the tags of the first song have one order in the
  two runs, and so has the payload but for its timestamp.
\<close>

theorem rerun_differs_in_timestamp_only_witness:
  "set_iter_ok example_python \<and> set_iter_ok (example_python\<lparr>set_iter := remdups\<rparr>) \<and>
   set_iter example_python [''rock'', ''sub'', ''en''] = [''en'', ''sub'', ''rock''] \<and>
   set_iter (example_python\<lparr>set_iter := remdups\<rparr>) [''rock'', ''sub'', ''en''] =
     [''rock'', ''sub'', ''en''] \<and>
   without_timestamp (fst (main (example_python\<lparr>set_iter := remdups\<rparr>) counter_generator
       text_floats 0 ''2024-01-01T00:00:01'' (Some example_raw_rows)
       (Some example_manual_rows))) =
   without_timestamp (fst (main example_python counter_generator text_floats 0
       ''2024-01-01T00:00:00'' (Some example_raw_rows) (Some example_manual_rows))) \<and>
   map (\<lambda>e. (entry_id e, tags e))
     (songs_of (main example_python counter_generator text_floats 0 ''2024-01-01T00:00:00''
       (Some example_raw_rows) (Some example_manual_rows))) =
     [(''manual:jacques-brel-amsterdam-1964'', [''chanson'', ''classic'', ''francophone'']),
      (''spotify:t2'', [''en'', ''pop'', ''sub'']),
      (''spotify:t1'', [''en'', ''rock'', ''sub''])] \<and>
   generated_at_of (main example_python counter_generator text_floats 0
       ''2024-01-01T00:00:00'' (Some example_raw_rows) (Some example_manual_rows)) =
     ''2024-01-01T00:00:00Z''"
proof -
  let ?m = "main example_python counter_generator text_floats 0 ''2024-01-01T00:00:00''
       (Some example_raw_rows) (Some example_manual_rows)"
  have o1: "set_iter example_python [''rock'', ''sub'', ''en''] = [''en'', ''sub'', ''rock'']"
    by code_simp
  have o2: "set_iter (example_python\<lparr>set_iter := remdups\<rparr>) [''rock'', ''sub'', ''en''] =
     [''rock'', ''sub'', ''en'']"
    by code_simp
  have e: "map (\<lambda>e. (entry_id e, tags e)) (songs_of ?m) =
     [(''manual:jacques-brel-amsterdam-1964'', [''chanson'', ''classic'', ''francophone'']),
      (''spotify:t2'', [''en'', ''pop'', ''sub'']),
      (''spotify:t1'', [''en'', ''rock'', ''sub''])]"
    by code_simp
  have "\<not> isl (fst ?m)" by code_simp
  then obtain p where p: "fst ?m = Inr p" by (cases "fst ?m") simp_all
  note t = rerun_differs_in_timestamp_only[OF example_python_ok, of counter_generator
      text_floats 0 "''2024-01-01T00:00:01''" "Some example_raw_rows"
      "Some example_manual_rows" "''2024-01-01T00:00:00''"]
  from t[THEN conjunct2, THEN conjunct2, THEN spec, THEN mp, OF p]
  have g: "generated_at_of ?m = ''2024-01-01T00:00:00Z''"
    by (simp add: generated_at_of_def p)
  show ?thesis
    by (intro conjI) (rule example_python_ok(1), rule example_python_ok(2), rule o1, rule o2,
      rule t[THEN conjunct1], rule e, rule g)
qed

text \<open>
  C2 as stated fails: the same files and seed at two readings of the clock give two
  different payloads.
\<close>

theorem rerun_byte_identical_counterexample:
  "generated_at_of (main example_python counter_generator text_floats 0 ''2024-01-01T00:00:00''
       (Some example_raw_rows) (Some example_manual_rows)) = ''2024-01-01T00:00:00Z'' \<and>
   generated_at_of (main example_python counter_generator text_floats 0 ''2024-01-01T00:00:01''
       (Some example_raw_rows) (Some example_manual_rows)) = ''2024-01-01T00:00:01Z'' \<and>
   main example_python counter_generator text_floats 0 ''2024-01-01T00:00:00''
       (Some example_raw_rows) (Some example_manual_rows) \<noteq>
   main example_python counter_generator text_floats 0 ''2024-01-01T00:00:01''
       (Some example_raw_rows) (Some example_manual_rows)"
proof -
  have a: "generated_at_of (main example_python counter_generator text_floats 0
       ''2024-01-01T00:00:00'' (Some example_raw_rows) (Some example_manual_rows)) =
     ''2024-01-01T00:00:00Z''"
    by code_simp
  have b: "generated_at_of (main example_python counter_generator text_floats 0
       ''2024-01-01T00:00:01'' (Some example_raw_rows) (Some example_manual_rows)) =
     ''2024-01-01T00:00:01Z''"
    by code_simp
  have c: "main example_python counter_generator text_floats 0 ''2024-01-01T00:00:00''
       (Some example_raw_rows) (Some example_manual_rows) \<noteq>
     main example_python counter_generator text_floats 0 ''2024-01-01T00:00:01''
       (Some example_raw_rows) (Some example_manual_rows)"
  proof
    assume "main example_python counter_generator text_floats 0 ''2024-01-01T00:00:00''
       (Some example_raw_rows) (Some example_manual_rows) =
     main example_python counter_generator text_floats 0 ''2024-01-01T00:00:01''
       (Some example_raw_rows) (Some example_manual_rows)"
    then have "generated_at_of (main example_python counter_generator text_floats 0
       ''2024-01-01T00:00:00'' (Some example_raw_rows) (Some example_manual_rows)) =
      generated_at_of (main example_python counter_generator text_floats 0
       ''2024-01-01T00:00:01'' (Some example_raw_rows) (Some example_manual_rows))"
      by (rule arg_cong)
    then have "''2024-01-01T00:00:00Z'' = ''2024-01-01T00:00:01Z''" unfolding a b .
    then show False by simp
  qed
  show ?thesis by (intro conjI) (rule a, rule b, rule c)
qed

text \<open>
  C3 (as amended). In a run that writes a catalog, the songs are the sorted list of the
  primary entries, the curated entries that were kept and the backfill entries. The
  kept curated entries have pairwise different normalized (title, artist) keys, none
  of them the key of a primary entry; every curated entry, kept or dropped, has the key
  of a primary or kept entry, and the number dropped is the one the notes report. No
  backfill entry has the key of a primary or kept curated entry, and the backfill has
  as many entries as are missing to 3000, or the whole pool of loaded rows with a new
  key when that is smaller.
\<close>

theorem curated_and_backfill_keys:
  fixes p :: "'f payload"
  assumes "generator_ok gen"
    and "main py gen fl g utcnow (Some rows) (Some manual) = (Inr p, g')"
  shows "\<exists>recs primary curated kept extra skipped.
     songs p = sort_key (\<lambda>item. (releaseYear item, title item)) (primary @ kept @ extra) \<and>
     load_spotify_records py rows = Inr recs \<and>
     map_result (spotify_row_to_entry py fl) (fst (select_spotify_subset gen g recs)) =
       Inr primary \<and>
     map_result (manual_entry py) manual = Inr curated \<and>
     set kept \<subseteq> set curated \<and>
     distinct (map (entry_key py) kept) \<and>
     set (map (entry_key py) kept) \<inter> set (map (entry_key py) primary) = {} \<and>
     (\<forall>e \<in> set curated. entry_key py e \<in> set (map (entry_key py) (primary @ kept))) \<and>
     length kept + skipped = length manual \<and>
     last (meta_notes (metadata p)) = ''Manual duplicates skipped: '' @ str_nat skipped \<and>
     set (map (entry_key py) extra) \<inter> set (map (entry_key py) (primary @ kept)) = {} \<and>
     length extra =
       min (3000 - length (primary @ kept))
         (length (filter (\<lambda>r. row_key py r \<notin> set (map (entry_key py) (primary @ kept)))
            recs))"
proof -
  from main_success_structure[OF assms(2)] obtain recs primary curated kept skipped K extra
    where lo: "load_spotify_records py rows = Inr recs"
    and pr: "map_result (spotify_row_to_entry py fl) (fst (select_spotify_subset gen g recs)) =
       Inr primary"
    and cu: "map_result (manual_entry py) manual = Inr curated"
    and f: "foldl (merge_manual py) ([], 0, set (map (entry_key py) primary)) curated =
       (kept, skipped, K)"
    and b: "backfill py gen fl (snd (select_spotify_subset gen g recs)) recs K
       (length (primary @ kept)) = (Inr extra, g')"
    and p: "p = make_payload utcnow skipped
           (sort_key (\<lambda>item. (releaseYear item, title item)) (primary @ kept @ extra))"
    by blast
  from merge_manual_fold[OF f] have
    K: "K = set (map (entry_key py) primary) \<union> set (map (entry_key py) kept)"
    and d: "distinct (map (entry_key py) kept)"
    and i: "set (map (entry_key py) kept) \<inter> set (map (entry_key py) primary) = {}"
    and l: "length kept + skipped = length curated"
    and s: "set kept \<subseteq> set curated"
    and a: "\<forall>e \<in> set curated. entry_key py e \<in> K" by auto
  have K': "K = set (map (entry_key py) (primary @ kept))" using K by simp
  from list_all2_lengthD[OF map_result_Inr[OF cu]] l
  have l': "length kept + skipped = length manual" by simp
  note bf = backfill_facts[OF assms(1) b]
  have e1: "set (map (entry_key py) extra) \<inter> set (map (entry_key py) (primary @ kept)) = {}"
  proof -
    have "\<And>k. k \<in> set (map (entry_key py) extra) \<Longrightarrow> k \<notin> K" using bf(2) by auto
    then show ?thesis unfolding K' by blast
  qed
  have e2: "length extra = min (3000 - length (primary @ kept))
         (length (filter (\<lambda>r. row_key py r \<notin> set (map (entry_key py) (primary @ kept)))
            recs))"
    using bf(1) unfolding K' .
  have s1: "songs p = sort_key (\<lambda>item. (releaseYear item, title item)) (primary @ kept @ extra)"
    and n1: "last (meta_notes (metadata p)) = ''Manual duplicates skipped: '' @ str_nat skipped"
    unfolding p by (rule make_payload_fields)+
  have a': "\<forall>e \<in> set curated. entry_key py e \<in> set (map (entry_key py) (primary @ kept))"
    using a unfolding K' .
  show ?thesis
    by (intro exI[of _ recs] exI[of _ primary] exI[of _ curated] exI[of _ kept]
        exI[of _ extra] exI[of _ skipped] conjI) (rule s1 lo pr cu s d i a' l' n1 e1 e2)+
qed

theorem curated_and_backfill_keys_witness:
  "generator_ok counter_generator \<and>
   (\<exists>p g' (kept :: string entry list) skipped.
      main example_python counter_generator text_floats 0 ''2024-01-01T00:00:00''
        (Some example_raw_rows) (Some example_manual_rows) = (Inr p, g') \<and>
      distinct (map (entry_key example_python) kept) \<and>
      length kept + skipped = length example_manual_rows \<and>
      last (meta_notes (metadata p)) = ''Manual duplicates skipped: '' @ str_nat skipped) \<and>
   map (entry_key example_python)
     (songs_of (main example_python counter_generator text_floats 0 ''2024-01-01T00:00:00''
        (Some example_raw_rows) (Some example_manual_rows))) =
     [(''amsterdam'', ''jacques brel''), (''song'', ''abc''), (''song'', ''abc'')] \<and>
   meta_notes (metadata (projr (fst (main example_python counter_generator text_floats 0
     ''2024-01-01T00:00:00'' (Some example_raw_rows) (Some example_manual_rows))))) ! 3 =
     ''Manual duplicates skipped: 1''"
proof -
  let ?m = "main example_python counter_generator text_floats 0 ''2024-01-01T00:00:00''
        (Some example_raw_rows) (Some example_manual_rows)"
  have k: "map (entry_key example_python) (songs_of ?m) =
     [(''amsterdam'', ''jacques brel''), (''song'', ''abc''), (''song'', ''abc'')]"
    by code_simp
  have n: "meta_notes (metadata (projr (fst ?m))) ! 3 = ''Manual duplicates skipped: 1''"
    by code_simp
  have "\<not> isl (fst ?m)" by code_simp
  then obtain p where "fst ?m = Inr p" by (cases "fst ?m") simp_all
  then have m: "?m = (Inr p, snd ?m)" by (simp add: prod_eq_iff)
  from curated_and_backfill_keys[OF counter_generator_ok m]
  obtain kept :: "string entry list" and skipped where
    "distinct (map (entry_key example_python) kept)"
    "length kept + skipped = length example_manual_rows"
    "last (meta_notes (metadata p)) = ''Manual duplicates skipped: '' @ str_nat skipped"
    by (elim exE conjE)
  with m have c: "?m = (Inr p, snd ?m) \<and>
      distinct (map (entry_key example_python) kept) \<and>
      length kept + skipped = length example_manual_rows \<and>
      last (meta_notes (metadata p)) = ''Manual duplicates skipped: '' @ str_nat skipped"
    by (intro conjI)
  have "\<exists>p g' (kept :: string entry list) skipped. ?m = (Inr p, g') \<and>
      distinct (map (entry_key example_python) kept) \<and>
      length kept + skipped = length example_manual_rows \<and>
      last (meta_notes (metadata p)) = ''Manual duplicates skipped: '' @ str_nat skipped"
    apply (rule exI[of _ p])
    apply (rule exI[of _ "snd ?m"])
    apply (rule exI[of _ kept])
    apply (rule exI[of _ skipped])
    apply (rule c)
    done
  with counter_generator_ok k n show ?thesis by (intro conjI)
qed

text \<open>
  C3 as stated fails: two rows of the raw table with different identifiers and one
  normalized (title, artist) key are both selected, and both are in the catalog.
\<close>

theorem duplicate_keys_counterexample:
  "map (\<lambda>e. (entry_id e, entry_key example_python e))
     (songs_of (main example_python counter_generator text_floats 0 ''2024-01-01T00:00:00''
        (Some example_raw_rows) (Some []))) =
   [(''spotify:t2'', (''song'', ''abc'')), (''spotify:t1'', (''song'', ''abc''))] \<and>
   \<not> distinct (map (entry_key example_python)
     (songs_of (main example_python counter_generator text_floats 0 ''2024-01-01T00:00:00''
        (Some example_raw_rows) (Some []))))"
  by code_simp

text \<open>
  C4. For every decade of \<open>DECADE_TARGETS\<close>, the number of rows selected for the decade
  is at most its quota, and is the quota whenever the pool of the decade (its rows
  whose identifier is not yet used when the loop reaches it) has at least that many
  rows.
\<close>

theorem decade_quota_respected:
  assumes "generator_ok gen" and "(dec, target) \<in> set DECADE_TARGETS"
  shows "int (length (filter (\<lambda>r. decade r = dec) (fst (select_spotify_subset gen g records))))
           \<le> target \<and>
         (target \<le> int (length (decade_bucket records (used_before gen g records dec) dec)) \<longrightarrow>
            int (length (filter (\<lambda>r. decade r = dec)
              (fst (select_spotify_subset gen g records)))) = target)"
  using select_count[OF assms, of g records] by simp

text \<open>
  The 2020s of \<open>example_full_decade\<close>: a pool of 103 rows against a quota of 100, in
  101 genres. Every genre keeps its floor of one row, the plan sums to 101, the sampler
  returns 101 rows, and \<open>picks[:target]\<close> cuts them to the quota.
\<close>

theorem decade_quota_respected_witness:
  "generator_ok counter_generator \<and> (2020, 100) \<in> set DECADE_TARGETS \<and>
   decade_bucket example_full_decade
     (used_before counter_generator 0 example_full_decade 2020) 2020 = example_full_decade \<and>
   (100::int) \<le> int (length (decade_bucket example_full_decade
     (used_before counter_generator 0 example_full_decade 2020) 2020)) \<and>
   length (fst (stratified_sample counter_generator 0 example_full_decade 100)) = 101 \<and>
   int (length (filter (\<lambda>r. decade r = 2020)
     (fst (select_spotify_subset counter_generator 0 example_full_decade)))) \<le> 100 \<and>
   int (length (filter (\<lambda>r. decade r = 2020)
     (fst (select_spotify_subset counter_generator 0 example_full_decade)))) = 100"
proof -
  have m: "(2020, 100) \<in> set DECADE_TARGETS" by (simp add: DECADE_TARGETS_def)
  have h: "(100::int) \<le> int (length (decade_bucket example_full_decade
     (used_before counter_generator 0 example_full_decade 2020) 2020))"
    unfolding example_full_bucket by (simp add: example_full_length)
  note t = decade_quota_respected[OF counter_generator_ok m, of 0 example_full_decade]
  show ?thesis
    by (intro conjI) (rule counter_generator_ok, rule m, rule example_full_bucket, rule h,
      rule example_full_sample, rule t[THEN conjunct1], rule t[THEN conjunct2, THEN mp, OF h])
qed

text \<open>
  C5. No identifier appears in the rows selected for two different decades: the
  identifiers picked for a decade are marked as used before the bucket of the next
  decade is built.
\<close>

theorem decades_partition:
  assumes "generator_ok gen" and "d1 \<noteq> d2"
  shows "id_of ` set (filter (\<lambda>r. decade r = d1) (fst (select_spotify_subset gen g records))) \<inter>
         id_of ` set (filter (\<lambda>r. decade r = d2) (fst (select_spotify_subset gen g records))) = {}"
  using assms by (rule select_partition)

theorem decades_partition_witness:
  "generator_ok counter_generator \<and> (1990::int) \<noteq> 2000 \<and>
   id_of ` set (filter (\<lambda>r. decade r = 1990)
     (fst (select_spotify_subset counter_generator 0 example_records))) \<inter>
   id_of ` set (filter (\<lambda>r. decade r = 2000)
     (fst (select_spotify_subset counter_generator 0 example_records))) = {} \<and>
   map id_of (fst (select_spotify_subset counter_generator 0 example_records)) = [''a'', ''b'']"
proof -
  have n: "(1990::int) \<noteq> 2000" by simp
  show ?thesis
    by (intro conjI) (rule counter_generator_ok, rule n,
      rule decades_partition[OF counter_generator_ok n], rule example_selection)
qed

text \<open>
  C6 (as amended). When the allocations sum to less than \<open>target\<close>, the genres are taken
  in descending order of (room left, group size), and each genre in turn receives, in
  one step, the smaller of the shortfall still left and its room: the genre at
  position \<open>i\<close> ends with its allocation plus
  \<open>min(max(0, shortfall - room of the genres before it), its room)\<close>. No allocation
  exceeds the size of its genre.
\<close>

theorem shortfall_distribution:
  assumes "sum_list (map snd (initial_allocations target (group_by_genre bucket))) < target"
  shows "let gs = group_by_genre bucket;
             al0 = initial_allocations target gs;
             diff = target - sum_list (map snd al0);
             ordered = sorted_reverse (shortfall_key al0) gs;
             plan = allocation_plan bucket target
         in set ordered = set gs \<and> length ordered = length gs \<and>
            sorted (rev (map (shortfall_key al0) ordered)) \<and>
            (\<forall>i < length ordered.
               alloc_get plan (fst (ordered ! i)) =
                 alloc_get al0 (fst (ordered ! i)) +
                   min (max 0 (diff - headroom al0 (take i ordered)))
                       (int (length (snd (ordered ! i))) - alloc_get al0 (fst (ordered ! i)))) \<and>
            (\<forall>(g, items) \<in> set gs. alloc_get plan g \<le> int (length items))"
proof -
  define gs where "gs = group_by_genre bucket"
  define al0 where "al0 = initial_allocations target gs"
  define diff where "diff = target - sum_list (map snd al0)"
  define ordered where "ordered = sorted_reverse (shortfall_key al0) gs"
  define plan where "plan = allocation_plan bucket target"
  note b = initial_allocations_bounds(1)[of bucket, folded gs_def]
    initial_allocations_bounds(2)[of target bucket, folded gs_def al0_def]
    initial_allocations_bounds(3)[of bucket target, folded gs_def al0_def]
  have so: "set ordered = set gs" by (simp add: ordered_def set_sorted_reverse)
  have lo: "length ordered = length gs" by (simp add: ordered_def sorted_reverse_def)
  have dord: "distinct (map fst ordered)"
    unfolding ordered_def by (rule distinct_keys_sorted_reverse[OF b(1)])
  have le: "\<forall>(g, items) \<in> set ordered. alloc_get al0 g \<le> int (length items)"
    using b(3) so by (auto simp: al0_def)
  have d: "0 \<le> diff" using assms by (simp add: diff_def al0_def gs_def)
  have p: "plan = fill_shortfall al0 diff ordered"
    using assms
    by (simp add: plan_def allocation_plan_def reconcile_def Let_def gs_def al0_def diff_def ordered_def)
  have 1: "sorted (rev (map (shortfall_key al0) ordered))"
    unfolding ordered_def by (rule sorted_reverse_descending)
  have 2: "\<forall>i < length ordered.
               alloc_get plan (fst (ordered ! i)) =
                 alloc_get al0 (fst (ordered ! i)) +
                   min (max 0 (diff - headroom al0 (take i ordered)))
                       (int (length (snd (ordered ! i))) - alloc_get al0 (fst (ordered ! i)))"
    unfolding p using fill_closed_form[OF dord le d] by blast
  have 3: "\<forall>(g, items) \<in> set gs. alloc_get plan g \<le> int (length items)"
    unfolding p using fill_bounds[OF dord le, of diff] so by blast
  from so lo 1 2 3 show ?thesis
    unfolding Let_def gs_def[symmetric] al0_def[symmetric] diff_def[symmetric]
      ordered_def[symmetric] plan_def[symmetric] by blast
qed

theorem shortfall_distribution_witness:
  "sum_list (map snd (initial_allocations 7 (group_by_genre example_shortfall_bucket))) < 7 \<and>
   sorted (rev (map
     (shortfall_key (initial_allocations 7 (group_by_genre example_shortfall_bucket)))
     (sorted_reverse
        (shortfall_key (initial_allocations 7 (group_by_genre example_shortfall_bucket)))
        (group_by_genre example_shortfall_bucket)))) \<and>
   allocation_plan example_shortfall_bucket 7 =
     [(''a'', 3), (''b'', 1), (''c'', 1), (''d'', 1), (''e'', 1)]"
proof -
  have h: "sum_list (map snd (initial_allocations 7 (group_by_genre example_shortfall_bucket))) < 7"
    by (simp add: example_shortfall_initial)
  note t = shortfall_distribution[OF h, unfolded Let_def]
  note b = t[THEN conjunct2, THEN conjunct2, THEN conjunct1]
  show ?thesis
    by (intro conjI) (rule h, rule b, rule example_shortfall_plan)
qed

text \<open>
  C6 as stated, "one unit at a time", fails: with five genres of three rows and a target
  of 7, every genre starts at 1 and the shortfall is 2; the script gives both units to
  the first genre in one step, where a unit at a time across the genres gives one to
  each of the first two.
\<close>

theorem shortfall_one_unit_counterexample:
  "sum_list (map snd (initial_allocations 7 (group_by_genre example_shortfall_bucket))) = 5 \<and>
   allocation_plan example_shortfall_bucket 7 =
     [(''a'', 3), (''b'', 1), (''c'', 1), (''d'', 1), (''e'', 1)] \<and>
   spec_unit_rounds 2 (initial_allocations 7 (group_by_genre example_shortfall_bucket)) (7 - 5)
     (sorted_reverse
        (shortfall_key (initial_allocations 7 (group_by_genre example_shortfall_bucket)))
        (group_by_genre example_shortfall_bucket)) =
     [(''a'', 2), (''b'', 2), (''c'', 1), (''d'', 1), (''e'', 1)]"
  by (simp add: example_shortfall_initial example_shortfall_plan example_shortfall_rounds)

text \<open>
  C7. The script discards a row whose year \<open>parse_year\<close> does not find, or finds before
  1960 (\<open>parse_year_first_segment\<close>, \<open>load_row_skips_bad_year\<close>). It does not discard a
  row whose first segment \<open>isdigit\<close> accepts and \<open>int\<close> refuses: \<open>int\<close> raises
  \<open>ValueError\<close> inside \<open>parse_year\<close>, nothing catches it, and when the row is reached
  (the rows before it load and none of the loaded ones has its identifier) the
  loading and the run end with that error, before anything is selected or written.
\<close>

theorem unparseable_year_raises:
  assumes "track_album_release_date r \<noteq> []"
    and "str_isdigit py
           (takeWhile (\<lambda>c. c \<noteq> CHR ''-'') (str_strip py (track_album_release_date r)))"
    and "int_of_str py
           (takeWhile (\<lambda>c. c \<noteq> CHR ''-'') (str_strip py (track_album_release_date r))) = None"
    and "load_spotify_records py pre = Inr recs"
    and "track_id r \<notin> (track_id \<circ> row) ` set recs"
  shows "parse_year py (track_album_release_date r) = Inl ValueError \<and>
         load_spotify_records py (pre @ r # post) = Inl ValueError \<and>
         main py gen fl g utcnow (Some (pre @ r # post)) manual = (Inl ValueError, g)"
proof -
  from assms(1-3) have p: "parse_year py (track_album_release_date r) = Inl ValueError"
    by (simp add: parse_year_first_segment)
  from load_raises[OF assms(4,5) p]
  have l: "load_spotify_records py (pre @ r # post) = Inl ValueError" .
  from p l main_load_error[OF l] show ?thesis by simp
qed

text \<open>
  The table \<open>example_superscript_rows\<close>: its second row is dated with the superscript
  two, \<open>isdigit\<close> accepts the segment, \<open>int\<close> refuses it, and the run ends with
  \<open>ValueError\<close> where the row was to be discarded.
\<close>

theorem unparseable_year_raises_witness:
  "track_album_release_date (example_superscript_rows ! 1) = example_superscript_date \<and>
   example_superscript_date \<noteq> [] \<and>
   str_isdigit example_python
     (takeWhile (\<lambda>c. c \<noteq> CHR ''-'') (str_strip example_python example_superscript_date)) \<and>
   int_of_str example_python
     (takeWhile (\<lambda>c. c \<noteq> CHR ''-'') (str_strip example_python example_superscript_date)) = None \<and>
   map_sum id (map id_of) (load_spotify_records example_python [example_superscript_rows ! 0]) =
     Inr [''t1''] \<and>
   parse_year example_python example_superscript_date = Inl ValueError \<and>
   load_spotify_records example_python example_superscript_rows = Inl ValueError \<and>
   main example_python counter_generator text_floats 0 ''2024-01-01T00:00:00''
     (Some example_superscript_rows) (Some example_manual_rows) = (Inl ValueError, 0)"
proof -
  let ?r = "example_row ''t2'' ''Tune'' ''Def'' example_superscript_date ''pop''"
  let ?pre = "[example_row ''t1'' ''Song'' ''Abc'' ''1999-01-01'' ''rock'']"
  let ?post = "[example_row ''t3'' ''Air'' ''Ghi'' ''2001-01-01'' ''rock'']"
  have rows: "example_superscript_rows = ?pre @ ?r # ?post"
    by (simp add: example_superscript_rows_def)
  have d: "track_album_release_date ?r = example_superscript_date"
    by (simp add: example_row_def)
  have d1: "track_album_release_date (example_superscript_rows ! 1) = example_superscript_date"
    by (simp add: example_superscript_rows_def example_row_def)
  have n: "example_superscript_date \<noteq> []" by (simp add: example_superscript_date_def)
  have i: "str_isdigit example_python
     (takeWhile (\<lambda>c. c \<noteq> CHR ''-'') (str_strip example_python example_superscript_date))"
    by code_simp
  have j: "int_of_str example_python
     (takeWhile (\<lambda>c. c \<noteq> CHR ''-'') (str_strip example_python example_superscript_date)) = None"
    by code_simp
  have l: "load_spotify_records example_python ?pre =
      Inr [\<lparr>row = example_row ''t1'' ''Song'' ''Abc'' ''1999-01-01'' ''rock'',
            release_year = 1999, decade = 1990\<rparr>]"
    by code_simp
  have l1: "map_sum id (map id_of)
      (load_spotify_records example_python [example_superscript_rows ! 0]) = Inr [''t1'']"
    by code_simp
  have u: "track_id ?r \<notin> (track_id \<circ> row) `
      set [\<lparr>row = example_row ''t1'' ''Song'' ''Abc'' ''1999-01-01'' ''rock'',
            release_year = 1999, decade = 1990\<rparr>]"
    by (simp add: example_row_def)
  note t = unparseable_year_raises[of ?r example_python, unfolded d, OF n i j l u,
      of ?post counter_generator text_floats 0 "''2024-01-01T00:00:00''"
        "Some example_manual_rows", folded rows]
  show ?thesis
    by (intro conjI) (rule d1, rule n, rule i, rule j, rule l1, rule t[THEN conjunct1],
      rule t[THEN conjunct2, THEN conjunct1], rule t[THEN conjunct2, THEN conjunct2])
qed

text \<open>
  C8. When the dataset is absent the run raises \<open>SystemExit\<close> at once: exit status 1,
  nothing written, the random source untouched. When the curated file is absent and
  the dataset is present, nothing checks for it before the work starts: the dataset is
  loaded, sampled and enriched, and the run ends with the error of the loading or of
  the enrichment if one of them fails, and with that of the missing file only after; the
  random source is then in its state after the selection. The exit status is 1 and
  nothing is written in every case.
\<close>

theorem missing_curated_file_found_late:
  fixes fl :: "'f float_ops"
  shows "main py gen fl g utcnow None manual = (Inl SystemExit, g) \<and>
         exit_status (fst (main py gen fl g utcnow None manual)) = 1 \<and>
         exit_status (fst (main py gen fl g utcnow (Some rows) None)) = 1 \<and>
         main py gen fl g utcnow (Some rows) None =
           (case load_spotify_records py rows of
              Inl e \<Rightarrow> (Inl e, g)
            | Inr recs \<Rightarrow>
                (case map_result (spotify_row_to_entry py fl)
                        (fst (select_spotify_subset gen g recs)) of
                   Inl e \<Rightarrow> (Inl e, snd (select_spotify_subset gen g recs))
                 | Inr primary \<Rightarrow>
                     (Inl FileNotFoundError, snd (select_spotify_subset gen g recs))))"
  by (simp add: main_raw_missing main_manual_missing exit_status_def split: sum.splits)

text \<open>
  With the curated file absent, the outcome is decided by the rows of the dataset, read
  and enriched before the file is opened: a table whose row has a popularity that is
  not a number ends the run with \<open>ValueError\<close>, a table of good rows with the error of
  the missing file.
\<close>

theorem missing_curated_file_found_late_witness:
  "main example_python counter_generator text_floats 0 ''2024-01-01T00:00:00'' None
     (Some example_manual_rows) = (Inl SystemExit, 0) \<and>
   main example_python counter_generator text_floats 0 ''2024-01-01T00:00:00''
     (Some example_raw_rows) None = (Inl FileNotFoundError, 0) \<and>
   main example_python counter_generator text_floats 0 ''2024-01-01T00:00:00''
     (Some example_bad_rows) None = (Inl ValueError, 0) \<and>
   main example_python counter_generator text_floats 0 ''2024-01-01T00:00:00''
     (Some example_superscript_rows) None = (Inl ValueError, 0) \<and>
   map_sum id (map id_of) (load_spotify_records example_python example_bad_rows) = Inr [''t1'']"
proof -
  note t = missing_curated_file_found_late[of example_python counter_generator text_floats 0
      "''2024-01-01T00:00:00''"]
  have a: "main example_python counter_generator text_floats 0 ''2024-01-01T00:00:00'' None
     (Some example_manual_rows) = (Inl SystemExit, 0)"
    by (rule t[THEN conjunct1])
  have b: "main example_python counter_generator text_floats 0 ''2024-01-01T00:00:00''
     (Some example_raw_rows) None = (Inl FileNotFoundError, 0)"
    unfolding t[of None example_raw_rows, THEN conjunct2, THEN conjunct2, THEN conjunct2]
    by code_simp
  have c: "main example_python counter_generator text_floats 0 ''2024-01-01T00:00:00''
     (Some example_bad_rows) None = (Inl ValueError, 0)"
    unfolding t[of None example_bad_rows, THEN conjunct2, THEN conjunct2, THEN conjunct2]
    by code_simp
  have d: "main example_python counter_generator text_floats 0 ''2024-01-01T00:00:00''
     (Some example_superscript_rows) None = (Inl ValueError, 0)"
    unfolding t[of None example_superscript_rows, THEN conjunct2, THEN conjunct2, THEN conjunct2]
    by code_simp
  have e: "map_sum id (map id_of) (load_spotify_records example_python example_bad_rows) =
      Inr [''t1'']"
    by code_simp
  show ?thesis by (intro conjI) (rule a, rule b, rule c, rule d, rule e)
qed

text \<open>
  C9. A row whose popularity field is empty becomes an entry with no popularity and a
  false niche flag, and it does become an entry whenever its numeric columns convert.
  A row with a popularity becomes an entry only when \<open>int\<close> reads the field, and its
  niche flag is then the comparison with 45.
\<close>

theorem empty_popularity_not_niche:
  "(track_popularity (row rec) = [] \<longrightarrow>
      (\<forall>e. spotify_row_to_entry py fl rec = Inr e \<longrightarrow> popularity e = None \<and> \<not> niche e) \<and>
      (floats_parse fl (row rec) \<longrightarrow> (\<exists>e. spotify_row_to_entry py fl rec = Inr e))) \<and>
   (track_popularity (row rec) \<noteq> [] \<longrightarrow>
      (\<forall>e. spotify_row_to_entry py fl rec = Inr e \<longrightarrow>
         (\<exists>p. int_of_str py (track_popularity (row rec)) = Some p \<and> popularity e = Some p \<and>
              niche e = (p < 45))))"
proof (intro conjI impI allI)
  fix e assume "track_popularity (row rec) = []" "spotify_row_to_entry py fl rec = Inr e"
  with spotify_row_to_entry_Inr(1)[OF this(2)] show "popularity e = None" "\<not> niche e"
    by (auto simp: popularity_of_empty)
next
  assume "track_popularity (row rec) = []" "floats_parse fl (row rec)"
  then show "\<exists>e. spotify_row_to_entry py fl rec = Inr e"
    by (intro spotify_row_to_entry_total) (simp_all add: popularity_of_empty)
next
  fix e assume n: "track_popularity (row rec) \<noteq> []"
    and r: "spotify_row_to_entry py fl rec = Inr e"
  from spotify_row_to_entry_Inr(1)[OF r] obtain pop where
    p: "popularity_of py (track_popularity (row rec)) = Some pop" "popularity e = pop"
      "niche e = (case pop of None \<Rightarrow> False | Some p \<Rightarrow> p < 45)" by blast
  from popularity_of_nonempty[OF n p(1)] p(2,3)
  show "\<exists>p. int_of_str py (track_popularity (row rec)) = Some p \<and> popularity e = Some p \<and>
              niche e = (p < 45)" by auto
qed

theorem empty_popularity_not_niche_witness:
  "track_popularity (row example_no_popularity) = [] \<and>
   floats_parse text_floats (row example_no_popularity) \<and>
   (\<exists>e. spotify_row_to_entry example_python text_floats example_no_popularity = Inr e \<and>
        popularity e = None \<and> \<not> niche e)"
proof -
  have h: "track_popularity (row example_no_popularity) = []"
    by (simp add: example_no_popularity_def)
  have f: "floats_parse text_floats (row example_no_popularity)"
    by code_simp
  note t = empty_popularity_not_niche[of example_no_popularity example_python text_floats,
      THEN conjunct1, THEN mp, OF h]
  from t[THEN conjunct2, THEN mp, OF f] obtain e where
    e: "spotify_row_to_entry example_python text_floats example_no_popularity = Inr e" ..
  from t[THEN conjunct1, THEN spec, THEN mp, OF e] e have
    "spotify_row_to_entry example_python text_floats example_no_popularity = Inr e \<and>
        popularity e = None \<and> \<not> niche e"
    by (intro conjI) (rule e, erule conjunct1, erule conjunct2)
  then have "\<exists>e. spotify_row_to_entry example_python text_floats example_no_popularity = Inr e \<and>
        popularity e = None \<and> \<not> niche e" ..
  with h f show ?thesis by (intro conjI)
qed

text \<open>
  C10. A row whose lower-cased title, a space and album contain \<open>ost\<close> is classified as
  a soundtrack, whatever it is, and is not loaded: the loading loop leaves its state
  as it is at that row, unless the row has a new identifier and a date on which
  \<open>parse_year\<close> raises, which ends the loading with nothing loaded; and the row is not
  among the records of any loading that returns.
\<close>

theorem ost_substring_excluded:
  assumes "sublist ''ost'' (str_lower py (track_name r @ '' '' @ track_album_name r))"
  shows "is_soundtrack py r \<and>
         load_row py st r =
           (case parse_year py (track_album_release_date r) of
              Inl e \<Rightarrow> if track_id r \<in> snd st then Inr st else Inl e
            | Inr y \<Rightarrow> Inr st) \<and>
         (\<forall>recs. load_spotify_records py rows = Inr recs \<longrightarrow> r \<notin> row ` set recs)"
proof -
  from assms have s: "is_soundtrack py r" by (rule ost_is_soundtrack)
  have "r \<notin> row ` set recs" if l: "load_spotify_records py rows = Inr recs" for recs
  proof
    assume "r \<in> row ` set recs"
    then obtain rec where "rec \<in> set recs" "row rec = r" by auto
    from load_records_ok[OF l this(1)] this(2) s show False
      by (simp add: record_ok_def)
  qed
  with s load_row_soundtrack[OF s, of st] show ?thesis by simp
qed

theorem ost_substring_excluded_witness:
  "sublist ''ost'' (str_lower example_python
     (track_name (example_row ''t1'' ''Ghost Town'' ''The Specials'' ''1981-06-12'' ''rock'') @
      '' '' @
      track_album_name (example_row ''t1'' ''Ghost Town'' ''The Specials'' ''1981-06-12''
        ''rock''))) \<and>
   is_soundtrack example_python
     (example_row ''t1'' ''Ghost Town'' ''The Specials'' ''1981-06-12'' ''rock'') \<and>
   load_row example_python ([], {})
     (example_row ''t1'' ''Ghost Town'' ''The Specials'' ''1981-06-12'' ''rock'') =
     Inr ([], {}) \<and>
   map_sum id (map id_of) (load_spotify_records example_python
     [example_row ''t1'' ''Ghost Town'' ''The Specials'' ''1981-06-12'' ''rock'',
      example_row ''t2'' ''Song'' ''Artist'' ''1981-06-12'' ''rock'']) = Inr [''t2'']"
proof -
  let ?r = "example_row ''t1'' ''Ghost Town'' ''The Specials'' ''1981-06-12'' ''rock''"
  have h: "sublist ''ost'' (str_lower example_python
      (track_name ?r @ '' '' @ track_album_name ?r))"
    by code_simp
  have p: "parse_year example_python (track_album_release_date ?r) = Inr (Some 1981)"
    by code_simp
  have l: "map_sum id (map id_of) (load_spotify_records example_python
     [?r, example_row ''t2'' ''Song'' ''Artist'' ''1981-06-12'' ''rock'']) = Inr [''t2'']"
    by code_simp
  note t = ost_substring_excluded[OF h, of "([], {})"]
  have a: "load_row example_python ([], {}) ?r = Inr ([], {})"
    using t[THEN conjunct2, THEN conjunct1] by (simp add: p)
  show ?thesis
    by (intro conjI) (rule h, rule t[THEN conjunct1], rule a, rule l)
qed

end
